theory Spec2Isabelle
  imports Main "HOL-Library.AList"
begin

section \<open>JavaScript values and description nodes\<close>

text \<open>
  The values that occur as attribute values and as raw children.  Numbers are restricted
  to integers: \<open>JNum n\<close> is the number \<open>n\<close>, for an \<open>n\<close> that is a double, as every integer up to
  \<open>2^53\<close> is.  A function value carries an identity (compared by \<open>===\<close>) and its source
  text (what \<open>String\<close> returns for it).
\<close>

datatype jsval = JUndefined | JNull | JBool bool | JNum int | JStr string | JFun nat string

text \<open>
  What \<open>createElement\<close> receives as a child and what a \<open>children\<close> array holds: an
  element object \<open>{type, props: {...attributes, children}}\<close>, a plain value, or an array.
\<close>

datatype element =
    Elem string "(string \<times> jsval) list" "element list"
  | Val jsval
  | Arr "element list"

text \<open>The \<open>props\<close> object: the attributes in insertion order, and the \<open>children\<close> entry.\<close>

record props =
  attrs :: "(string \<times> jsval) list"
  children :: "element list"

fun typeof :: "jsval \<Rightarrow> string" where
  "typeof JUndefined = ''undefined''"
| "typeof JNull = ''object''"
| "typeof (JBool b) = ''boolean''"
| "typeof (JNum n) = ''number''"
| "typeof (JStr s) = ''string''"
| "typeof (JFun i src) = ''function''"

definition digit :: "nat \<Rightarrow> char" where
  "digit n = ''0123456789'' ! n"

text \<open>The decimal numeral of an integer that is not negative.\<close>

function decimal :: "int \<Rightarrow> string" where
  "decimal n = (if n < 10 then [digit (nat n)] else decimal (n div 10) @ [digit (nat (n mod 10))])"
  by pat_completeness auto
termination
  by (relation "measure nat") auto

text \<open>
  The double nearest to an integer that is not negative, ties going to the even mantissa:
  below \<open>2^53\<close> the integer itself, above it the 53 leading bits, rounded.  This is the
  number that an integer literal denotes; it leaves a double as it is.
\<close>

function bitLength :: "int \<Rightarrow> nat" where
  "bitLength n = (if n \<le> 0 then 0 else Suc (bitLength (n div 2)))"
  by pat_completeness auto
termination
  by (relation "measure nat") auto

definition toDouble :: "int \<Rightarrow> int" where
  "toDouble v =
     (let e = bitLength v - 53; q = v div 2 ^ e; r = v mod 2 ^ e
      in if e = 0 then v
         else if 2 ^ (e - 1) < r \<or> (r = 2 ^ (e - 1) \<and> odd q) then (q + 1) * 2 ^ e
         else q * 2 ^ e)"

text \<open>
  Whether the integer \<open>c\<close> is read as the double \<open>d\<close>: it lies less than half a step of
  the mantissa from \<open>d\<close>, or exactly half a step when the mantissa of \<open>d\<close> is even.  Below
  a power of two the step is half as wide.
\<close>

definition roundsTo :: "int \<Rightarrow> int \<Rightarrow> bool" where
  "roundsTo d c =
     (let e = bitLength d - 53; m = d div 2 ^ e
      in if d \<le> c then 2 * (c - d) < 2 ^ e \<or> (2 * (c - d) = 2 ^ e \<and> even m)
         else if m = 2 ^ 52 then 4 * (d - c) \<le> 2 ^ e
         else 2 * (d - c) < 2 ^ e \<or> (2 * (d - c) = 2 ^ e \<and> even m))"

text \<open>
  \<open>Number::toString\<close> chooses the fewest significant digits that are still read as the
  same double, and among those the nearest (the even one on a tie).  The candidates whose
  last \<open>j\<close> digits are zero are the two multiples of \<open>10^j\<close> next to \<open>d\<close>.
\<close>

fun shortest :: "nat \<Rightarrow> int \<Rightarrow> int" where
  "shortest 0 d = d"
| "shortest (Suc j) d =
     (let t = 10 ^ Suc j; lo = (d div t) * t; hi = lo + t
      in if roundsTo d lo \<and> roundsTo d hi
         then (if d - lo < hi - d then lo
               else if hi - d < d - lo then hi
               else if even (d div t) then lo else hi)
         else if roundsTo d lo then lo
         else if roundsTo d hi then hi
         else shortest j d)"

text \<open>
  The text of a number that is not negative: \<open>Infinity\<close> from the overflow threshold on,
  the digits followed by zeros when there are at most 21 of them, and otherwise the
  digits, with a point after the first when there are several, and the exponent.
\<close>

definition numberToString :: "int \<Rightarrow> string" where
  "numberToString v =
     (let d = toDouble v
      in if 2 ^ 1024 \<le> d then ''Infinity''
         else (let ds = decimal (shortest (length (decimal d) - 1) d);
                   n = length ds;
                   s = rev (dropWhile (\<lambda>c. c = CHR ''0'') (rev ds))
               in if n \<le> 21 then ds
                  else (if length s = 1 then s else hd s # CHR ''.'' # tl s)
                         @ ''e+'' @ decimal (int n - 1)))"

text \<open>\<open>String(v)\<close> of JavaScript.\<close>

fun String_js :: "jsval \<Rightarrow> string" where
  "String_js JUndefined = ''undefined''"
| "String_js JNull = ''null''"
| "String_js (JBool b) = (if b then ''true'' else ''false'')"
| "String_js (JNum n) = (if n < 0 then CHR ''-'' # numberToString (- n) else numberToString n)"
| "String_js (JStr s) = s"
| "String_js (JFun i src) = src"

text \<open>\<open>{...props}\<close>: spreading \<open>null\<close> gives no attribute; the \<open>children\<close> key is
  overwritten by the entry that follows the spread.\<close>

definition spread :: "(string \<times> jsval) list option \<Rightarrow> (string \<times> jsval) list" where
  "spread p = (case p of None \<Rightarrow> [] | Some kvs \<Rightarrow> filter (\<lambda>kv. fst kv \<noteq> ''children'') kvs)"

subsection \<open>The element builder of the reconciling variant (\<open>typeof child === "object"\<close>)\<close>

definition createTextElement :: "jsval \<Rightarrow> element" where
  "createTextElement text = Elem ''TEXT_ELEMENT'' [(''nodeValue'', text)] []"

text \<open>The function mapped over the children: \<open>typeof null\<close> is \<open>"object"\<close>, as it is for
  an element and for an array.\<close>

fun wrapChild :: "element \<Rightarrow> element" where
  "wrapChild (Val v) = (if typeof v = ''object'' then Val v else createTextElement v)"
| "wrapChild c = c"

definition createElement :: "string \<Rightarrow> (string \<times> jsval) list option \<Rightarrow> element list \<Rightarrow> element" where
  "createElement type p cs = Elem type (spread p) (map wrapChild cs)"

subsection \<open>The element builder of the synchronous variant (\<open>children.flat()\<close>, \<open>String(text)\<close>)\<close>

definition createTextElement_gemini :: "jsval \<Rightarrow> element" where
  "createTextElement_gemini text = Elem ''TEXT_ELEMENT'' [(''nodeValue'', JStr (String_js text))] []"

text \<open>\<open>Array.prototype.flat()\<close> with its default depth 1.\<close>

fun flat :: "element list \<Rightarrow> element list" where
  "flat [] = []"
| "flat (Arr xs # cs) = xs @ flat cs"
| "flat (c # cs) = c # flat cs"

fun wrapChild_gemini :: "element \<Rightarrow> element" where
  "wrapChild_gemini (Val v) =
     (if typeof v = ''object'' \<and> v \<noteq> JNull then Val v else createTextElement_gemini v)"
| "wrapChild_gemini c = c"

definition createElement_gemini ::
  "string \<Rightarrow> (string \<times> jsval) list option \<Rightarrow> element list \<Rightarrow> element" where
  "createElement_gemini type p cs = Elem type (spread p) (map wrapChild_gemini (flat cs))"

section \<open>The presentation tree of the host\<close>

text \<open>
  The document object model is the environment of the engine, not part of it.  A node is
  a text node or an element node; it has the properties assigned as \<open>dom[name] = value\<close>,
  the attributes set with \<open>setAttribute\<close>, its text data, its event listeners and its child
  nodes in order.  A handle is the index of the node in the document.
\<close>

type_synonym handle = nat

datatype nodeKind = TextNode | ElementNode string

record dnode =
  nodeKind :: nodeKind
  properties :: "(string \<times> jsval) list"
  attributes :: "(string \<times> string) list"
  nodeValue :: string
  listeners :: "(string \<times> jsval) list"
  childNodes :: "handle list"

datatype error = TypeError | NotFoundError | HierarchyRequestError

definition createTextNode :: "dnode list \<Rightarrow> string \<Rightarrow> dnode list \<times> handle" where
  "createTextNode d txt =
     (d @ [\<lparr>nodeKind = TextNode, properties = [], attributes = [], nodeValue = txt,
            listeners = [], childNodes = []\<rparr>], length d)"

definition createElementNode :: "dnode list \<Rightarrow> string \<Rightarrow> dnode list \<times> handle" where
  "createElementNode d t =
     (d @ [\<lparr>nodeKind = ElementNode t, properties = [], attributes = [], nodeValue = [],
            listeners = [], childNodes = []\<rparr>], length d)"

text \<open>\<open>p.contains(n)\<close>: \<open>n\<close> is \<open>p\<close> or a descendant of \<open>p\<close>.  The descent is bounded by
  the number of nodes of the document, the depth of no tree in it being larger.\<close>

fun containsUpTo :: "nat \<Rightarrow> dnode list \<Rightarrow> handle \<Rightarrow> handle \<Rightarrow> bool" where
  "containsUpTo 0 d p n = (p = n)"
| "containsUpTo (Suc k) d p n =
     (p = n \<or> (p < length d \<and> list_ex (\<lambda>c. containsUpTo k d c n) (childNodes (d ! p))))"

definition contains :: "dnode list \<Rightarrow> handle \<Rightarrow> handle \<Rightarrow> bool" where
  "contains d p n = containsUpTo (length d) d p n"

text \<open>Taking a node out of the child list of whichever node holds it.\<close>

definition detach :: "dnode list \<Rightarrow> handle \<Rightarrow> dnode list" where
  "detach d c = map (\<lambda>n. n\<lparr>childNodes := removeAll c (childNodes n)\<rparr>) d"

text \<open>\<open>p.appendChild(c)\<close> moves \<open>c\<close> from where it is to the end of the children of \<open>p\<close>;
  it throws when \<open>c\<close> contains \<open>p\<close>.\<close>

definition appendChild :: "dnode list \<Rightarrow> handle \<Rightarrow> handle \<Rightarrow> error + dnode list" where
  "appendChild d p c =
     (if contains d c p then Inl HierarchyRequestError
      else let d' = detach d c
           in Inr (d'[p := (d' ! p)\<lparr>childNodes := childNodes (d' ! p) @ [c]\<rparr>]))"

text \<open>\<open>p.removeChild(c)\<close> throws when \<open>c\<close> is not a child of \<open>p\<close>.\<close>

definition removeChild :: "dnode list \<Rightarrow> handle \<Rightarrow> handle \<Rightarrow> error + dnode list" where
  "removeChild d p c =
     (if c \<in> set (childNodes (d ! p))
      then Inr (d[p := (d ! p)\<lparr>childNodes := removeAll c (childNodes (d ! p))\<rparr>])
      else Inl NotFoundError)"

definition setProperty :: "dnode list \<Rightarrow> handle \<Rightarrow> string \<Rightarrow> jsval \<Rightarrow> dnode list" where
  "setProperty d n name v = d[n := (d ! n)\<lparr>properties := AList.update name v (properties (d ! n))\<rparr>]"

definition addEventListener :: "dnode list \<Rightarrow> handle \<Rightarrow> string \<Rightarrow> jsval \<Rightarrow> dnode list" where
  "addEventListener d n ev f =
     (if (ev, f) \<in> set (listeners (d ! n)) then d
      else d[n := (d ! n)\<lparr>listeners := listeners (d ! n) @ [(ev, f)]\<rparr>])"

definition removeEventListener :: "dnode list \<Rightarrow> handle \<Rightarrow> string \<Rightarrow> jsval \<Rightarrow> dnode list" where
  "removeEventListener d n ev f =
     d[n := (d ! n)\<lparr>listeners := removeAll (ev, f) (listeners (d ! n))\<rparr>]"

definition setAttribute :: "dnode list \<Rightarrow> handle \<Rightarrow> string \<Rightarrow> jsval \<Rightarrow> dnode list" where
  "setAttribute d n name v =
     d[n := (d ! n)\<lparr>attributes := AList.update name (String_js v) (attributes (d ! n))\<rparr>]"

definition removeAttribute :: "dnode list \<Rightarrow> handle \<Rightarrow> string \<Rightarrow> dnode list" where
  "removeAttribute d n name = d[n := (d ! n)\<lparr>attributes := AList.delete name (attributes (d ! n))\<rparr>]"

text \<open>Reading \<open>nodeValue\<close> gives the data of a text node and \<open>null\<close> for an element;
  assigning it changes a text node only.\<close>

definition getNodeValue :: "dnode list \<Rightarrow> handle \<Rightarrow> string option" where
  "getNodeValue d n = (if nodeKind (d ! n) = TextNode then Some (nodeValue (d ! n)) else None)"

definition setNodeValue :: "dnode list \<Rightarrow> handle \<Rightarrow> string \<Rightarrow> dnode list" where
  "setNodeValue d n txt = (if nodeKind (d ! n) = TextNode then d[n := (d ! n)\<lparr>nodeValue := txt\<rparr>] else d)"

section \<open>Fibers and the render pass state\<close>

type_synonym addr = nat

datatype effect = PLACEMENT | UPDATE | DELETION

text \<open>
  A fiber object.  A field that a fiber object does not have (\<open>undefined\<close>) and a field
  holding \<open>null\<close> are both \<open>None\<close>.  The root fiber has no \<open>type\<close>; a fiber built from a
  child that is not an element object has neither \<open>type\<close> nor \<open>props\<close>.  Fibers live in a
  heap, a reference to a fiber is its index there, and an object literal allocates at
  the end of the heap.  Function-valued types (components and their hooks) are not part
  of the model.
\<close>

record fiber =
  ftype :: "string option"
  props :: "props option"
  domNode :: "handle option"
  parent :: "addr option"
  child :: "addr option"
  sibling :: "addr option"
  alternate :: "addr option"
  effectTag :: "effect option"

record state =
  heap :: "fiber list"
  document :: "dnode list"
  nextUnitOfWork :: "addr option"
  currentRoot :: "addr option"
  wipRoot :: "addr option"
  deletions :: "addr list"

text \<open>A computation that may throw (\<open>Inl\<close>) and whose loops and recursions run on fuel
  (\<open>None\<close> when the fuel is used up).\<close>

definition bind_res :: "(error + 'a) option \<Rightarrow> ('a \<Rightarrow> (error + 'b) option) \<Rightarrow> (error + 'b) option" where
  "bind_res m f = (case m of None \<Rightarrow> None | Some (Inl e) \<Rightarrow> Some (Inl e) | Some (Inr x) \<Rightarrow> f x)"

subsection \<open>Reading an element\<close>

fun truthy_val :: "jsval \<Rightarrow> bool" where
  "truthy_val JUndefined = False"
| "truthy_val JNull = False"
| "truthy_val (JBool b) = b"
| "truthy_val (JNum n) = (n \<noteq> 0)"
| "truthy_val (JStr s) = (s \<noteq> [])"
| "truthy_val (JFun i src) = True"

fun truthy :: "element \<Rightarrow> bool" where
  "truthy (Elem t kvs cs) = True"
| "truthy (Val v) = truthy_val v"
| "truthy (Arr xs) = True"

text \<open>\<open>element.type\<close> and \<open>element.props\<close>; both are \<open>undefined\<close> on an array and on a
  plain value.\<close>

fun elementType :: "element \<Rightarrow> string option" where
  "elementType (Elem t kvs cs) = Some t"
| "elementType e = None"

fun elementProps :: "element \<Rightarrow> props option" where
  "elementProps (Elem t kvs cs) = Some \<lparr>attrs = kvs, children = cs\<rparr>"
| "elementProps e = None"

section \<open>The reconciling variant\<close>

subsection \<open>Attribute diff\<close>

definition isEvent :: "string \<Rightarrow> bool" where
  "isEvent key = (take 2 key = ''on'')"

definition isProperty :: "string \<Rightarrow> bool" where
  "isProperty key = (key \<noteq> ''children'' \<and> \<not> isEvent key)"

text \<open>\<open>obj[key]\<close>: \<open>undefined\<close> for a key the object does not have.\<close>

definition lookup :: "(string \<times> jsval) list \<Rightarrow> string \<Rightarrow> jsval" where
  "lookup kvs key = (case map_of kvs key of None \<Rightarrow> JUndefined | Some v \<Rightarrow> v)"

definition isNew :: "(string \<times> jsval) list \<Rightarrow> (string \<times> jsval) list \<Rightarrow> string \<Rightarrow> bool" where
  "isNew prev next key = (lookup prev key \<noteq> lookup next key)"

definition isGone :: "(string \<times> jsval) list \<Rightarrow> (string \<times> jsval) list \<Rightarrow> string \<Rightarrow> bool" where
  "isGone prev next key = (key \<notin> set (map fst next))"

definition toLowerChar :: "char \<Rightarrow> char" where
  "toLowerChar c =
     (case map_of (zip ''ABCDEFGHIJKLMNOPQRSTUVWXYZ'' ''abcdefghijklmnopqrstuvwxyz'') c of
        None \<Rightarrow> c | Some l \<Rightarrow> l)"

definition eventType :: "string \<Rightarrow> string" where
  "eventType name = drop 2 (map toLowerChar name)"

text \<open>The four passes over the keys of the two attribute objects.  The \<open>children\<close> key
  is neither a property nor an event, so the passes range over the attributes.\<close>

definition updateDomProperties ::
  "dnode list \<Rightarrow> handle \<Rightarrow> (string \<times> jsval) list \<Rightarrow> (string \<times> jsval) list \<Rightarrow> dnode list" where
  "updateDomProperties d dom0 prevProps nextProps =
     (let d1 = fold (\<lambda>name d. setProperty d dom0 name (JStr []))
                 (filter (isGone prevProps nextProps) (filter isProperty (map fst prevProps))) d;
          d2 = fold (\<lambda>name d. removeEventListener d dom0 (eventType name) (lookup prevProps name))
                 (filter (\<lambda>key. isGone prevProps nextProps key \<or> isNew prevProps nextProps key)
                    (filter isEvent (map fst prevProps))) d1;
          d3 = fold (\<lambda>name d. setProperty d dom0 name (lookup nextProps name))
                 (filter (isNew prevProps nextProps) (filter isProperty (map fst nextProps))) d2;
          d4 = fold (\<lambda>name d. addEventListener d dom0 (eventType name) (lookup nextProps name))
                 (filter (isNew prevProps nextProps) (filter isEvent (map fst nextProps))) d3
      in d4)"

text \<open>\<open>Object.keys\<close> throws on \<open>undefined\<close>.\<close>

definition updateDomProps ::
  "dnode list \<Rightarrow> handle \<Rightarrow> props option \<Rightarrow> props option \<Rightarrow> error + dnode list" where
  "updateDomProps d dom0 prevProps nextProps =
     (case prevProps of
        None \<Rightarrow> Inl TypeError
      | Some pp \<Rightarrow> (case nextProps of
          None \<Rightarrow> Inl TypeError
        | Some np \<Rightarrow> Inr (updateDomProperties d dom0 (attrs pp) (attrs np))))"

definition emptyProps :: props where
  "emptyProps = \<lparr>attrs = [], children = []\<rparr>"

text \<open>\<open>document.createElement(undefined)\<close> makes an element named after the string
  \<open>undefined\<close>.  A tag name the host refuses is not modelled.\<close>

definition createDom :: "dnode list \<Rightarrow> fiber \<Rightarrow> error + dnode list \<times> handle" where
  "createDom d fiber =
     (let (d', dom0) = (if ftype fiber = Some ''TEXT_ELEMENT'' then createTextNode d []
                       else createElementNode d (case ftype fiber of None \<Rightarrow> ''undefined'' | Some t \<Rightarrow> t))
      in (case updateDomProps d' dom0 (Some emptyProps) (props fiber) of
            Inl e \<Rightarrow> Inl e
          | Inr d'' \<Rightarrow> Inr (d'', dom0)))"

subsection \<open>Reconciliation of the children of a fiber\<close>

fun reconcileLoop ::
  "nat \<Rightarrow> addr \<Rightarrow> element list \<Rightarrow> nat \<Rightarrow> addr option \<Rightarrow> addr option \<Rightarrow> state \<Rightarrow> (error + state) option" where
  "reconcileLoop 0 wipFiber elements index oldFiber prevSibling s = None"
| "reconcileLoop (Suc fuel) wipFiber elements index oldFiber prevSibling s =
     (if index < length elements \<or> oldFiber \<noteq> None then
        let element = (if index < length elements then elements ! index else Val JNull);
            sameType = (case oldFiber of None \<Rightarrow> False
                        | Some old \<Rightarrow> truthy element \<and> elementType element = ftype (heap s ! old));
            (s1, newFiber1) =
              (case oldFiber of
                 Some old \<Rightarrow>
                   if sameType
                   then (s\<lparr>heap := heap s @
                           [\<lparr>ftype = ftype (heap s ! old), props = elementProps element,
                             domNode = domNode (heap s ! old), parent = Some wipFiber,
                             child = None, sibling = None, alternate = Some old,
                             effectTag = Some UPDATE\<rparr>]\<rparr>, Some (length (heap s)))
                   else (s, None)
               | None \<Rightarrow> (s, None));
            (s2, newFiber) =
              (if truthy element \<and> \<not> sameType
               then (s1\<lparr>heap := heap s1 @
                       [\<lparr>ftype = elementType element, props = elementProps element,
                         domNode = None, parent = Some wipFiber,
                         child = None, sibling = None, alternate = None,
                         effectTag = Some PLACEMENT\<rparr>]\<rparr>, Some (length (heap s1)))
               else (s1, newFiber1));
            s3 = (case oldFiber of
                    Some old \<Rightarrow>
                      if \<not> sameType
                      then s2\<lparr>heap := (heap s2)[old := (heap s2 ! old)\<lparr>effectTag := Some DELETION\<rparr>],
                              deletions := deletions s2 @ [old]\<rparr>
                      else s2
                  | None \<Rightarrow> s2);
            oldFiber' = (case oldFiber of Some old \<Rightarrow> sibling (heap s3 ! old) | None \<Rightarrow> None)
        in if index = 0
           then reconcileLoop fuel wipFiber elements (index + 1) oldFiber' newFiber
                  (s3\<lparr>heap := (heap s3)[wipFiber := (heap s3 ! wipFiber)\<lparr>child := newFiber\<rparr>]\<rparr>)
           else if truthy element
           then (case prevSibling of
                   None \<Rightarrow> Some (Inl TypeError)
                 | Some prev \<Rightarrow>
                     reconcileLoop fuel wipFiber elements (index + 1) oldFiber' newFiber
                       (s3\<lparr>heap := (heap s3)[prev := (heap s3 ! prev)\<lparr>sibling := newFiber\<rparr>]\<rparr>))
           else reconcileLoop fuel wipFiber elements (index + 1) oldFiber' newFiber s3
      else Some (Inr s))"

definition reconcileChildren :: "nat \<Rightarrow> addr \<Rightarrow> element list \<Rightarrow> state \<Rightarrow> (error + state) option" where
  "reconcileChildren fuel wipFiber elements s =
     reconcileLoop fuel wipFiber elements 0
       (case alternate (heap s ! wipFiber) of None \<Rightarrow> None | Some alt \<Rightarrow> child (heap s ! alt))
       None s"

subsection \<open>One unit of work\<close>

definition updateHostComponent :: "nat \<Rightarrow> addr \<Rightarrow> state \<Rightarrow> (error + state) option" where
  "updateHostComponent fuel fiber s =
     bind_res
       (case domNode (heap s ! fiber) of
          None \<Rightarrow>
            (case createDom (document s) (heap s ! fiber) of
               Inl e \<Rightarrow> Some (Inl e)
             | Inr (d, dom0) \<Rightarrow>
                 Some (Inr (s\<lparr>heap := (heap s)[fiber := (heap s ! fiber)\<lparr>domNode := Some dom0\<rparr>],
                             document := d\<rparr>)))
        | Some dom0 \<Rightarrow> Some (Inr s))
       (\<lambda>s1. case props (heap s1 ! fiber) of
                None \<Rightarrow> Some (Inl TypeError)
              | Some p \<Rightarrow> reconcileChildren fuel fiber (children p) s1)"

text \<open>The loop \<open>while (nextFiber) { if (nextFiber.sibling) return nextFiber.sibling;
  nextFiber = nextFiber.parent }\<close>; falling out of it returns no fiber.\<close>

fun siblingAbove :: "nat \<Rightarrow> fiber list \<Rightarrow> addr option \<Rightarrow> addr option option" where
  "siblingAbove 0 h nextFiber = None"
| "siblingAbove (Suc fuel) h None = Some None"
| "siblingAbove (Suc fuel) h (Some nextFiber) =
     (case sibling (h ! nextFiber) of
        Some sib \<Rightarrow> Some (Some sib)
      | None \<Rightarrow> siblingAbove fuel h (parent (h ! nextFiber)))"

definition nextUnit :: "nat \<Rightarrow> fiber list \<Rightarrow> addr \<Rightarrow> addr option option" where
  "nextUnit fuel h fiber =
     (case child (h ! fiber) of
        Some c \<Rightarrow> Some (Some c)
      | None \<Rightarrow> siblingAbove fuel h (Some fiber))"

text \<open>A fiber of the model is never a function component, so the unit of work is that
  of a host component, followed by the choice of the next unit.\<close>

definition performUnitOfWork :: "nat \<Rightarrow> addr \<Rightarrow> state \<Rightarrow> (error + state \<times> addr option) option" where
  "performUnitOfWork fuel fiber s =
     bind_res (updateHostComponent fuel fiber s)
       (\<lambda>s1. case nextUnit fuel (heap s1) fiber of
                None \<Rightarrow> None
              | Some nxt \<Rightarrow> Some (Inr (s1, nxt)))"

subsection \<open>Commit\<close>

text \<open>The loop \<open>while (domParentFiber && !domParentFiber.dom) domParentFiber =
  domParentFiber.parent\<close>, returning the handle found, if any.\<close>

fun findDomParent :: "nat \<Rightarrow> fiber list \<Rightarrow> addr option \<Rightarrow> handle option option" where
  "findDomParent 0 h domParentFiber = None"
| "findDomParent (Suc fuel) h None = Some None"
| "findDomParent (Suc fuel) h (Some domParentFiber) =
     (case domNode (h ! domParentFiber) of
        Some dom0 \<Rightarrow> Some (Some dom0)
      | None \<Rightarrow> findDomParent fuel h (parent (h ! domParentFiber)))"

fun commitDeletion :: "nat \<Rightarrow> fiber list \<Rightarrow> dnode list \<Rightarrow> addr \<Rightarrow> handle \<Rightarrow> (error + dnode list) option" where
  "commitDeletion 0 h d fiber domParent = None"
| "commitDeletion (Suc fuel) h d fiber domParent =
     (case domNode (h ! fiber) of
        Some dom0 \<Rightarrow> Some (removeChild d domParent dom0)
      | None \<Rightarrow>
          (case child (h ! fiber) of
             Some c \<Rightarrow> commitDeletion fuel h d c domParent
           | None \<Rightarrow> Some (Inr d)))"

text \<open>The chain of tests on the effect tag in \<open>commitWork\<close>, under the parent handle
  found.\<close>

definition commitEffect :: "nat \<Rightarrow> addr \<Rightarrow> handle \<Rightarrow> state \<Rightarrow> (error + state) option" where
  "commitEffect fuel fiber domParent s =
     (if effectTag (heap s ! fiber) = Some PLACEMENT \<and> domNode (heap s ! fiber) \<noteq> None
      then (case appendChild (document s) domParent (the (domNode (heap s ! fiber))) of
              Inl e \<Rightarrow> Some (Inl e)
            | Inr d \<Rightarrow> Some (Inr (s\<lparr>document := d\<rparr>)))
      else if effectTag (heap s ! fiber) = Some UPDATE \<and> domNode (heap s ! fiber) \<noteq> None
      then (case updateDomProps (document s) (the (domNode (heap s ! fiber)))
                   (case alternate (heap s ! fiber) of
                      Some alt \<Rightarrow> props (heap s ! alt)
                    | None \<Rightarrow> Some emptyProps)
                   (props (heap s ! fiber)) of
              Inl e \<Rightarrow> Some (Inl e)
            | Inr d \<Rightarrow> Some (Inr (s\<lparr>document := d\<rparr>)))
      else if effectTag (heap s ! fiber) = Some DELETION
      then bind_res (commitDeletion fuel (heap s) (document s) fiber domParent)
             (\<lambda>d. Some (Inr (s\<lparr>document := d\<rparr>)))
      else Some (Inr s))"

text \<open>A fiber without a parent handle ends the walk of its children and siblings.
  The recursion is bounded by \<open>depth\<close>, the two loops inside by \<open>fuel\<close>.\<close>

fun commitWork :: "nat \<Rightarrow> nat \<Rightarrow> addr option \<Rightarrow> state \<Rightarrow> (error + state) option" where
  "commitWork fuel 0 fiber s = None"
| "commitWork fuel (Suc depth) None s = Some (Inr s)"
| "commitWork fuel (Suc depth) (Some fiber) s =
     (case findDomParent fuel (heap s) (parent (heap s ! fiber)) of
        None \<Rightarrow> None
      | Some None \<Rightarrow> Some (Inr s)
      | Some (Some domParent) \<Rightarrow>
          bind_res (commitEffect fuel fiber domParent s)
            (\<lambda>s1. bind_res (commitWork fuel depth (child (heap s1 ! fiber)) s1)
                     (\<lambda>s2. commitWork fuel depth (sibling (heap s2 ! fiber)) s2)))"

text \<open>\<open>deletions.forEach(commitWork)\<close>.\<close>

fun commitEach :: "nat \<Rightarrow> nat \<Rightarrow> addr list \<Rightarrow> state \<Rightarrow> (error + state) option" where
  "commitEach fuel depth [] s = Some (Inr s)"
| "commitEach fuel depth (fiber # fibers) s =
     bind_res (commitWork fuel depth (Some fiber) s) (commitEach fuel depth fibers)"

text \<open>\<open>wipRoot.child\<close> throws when \<open>wipRoot\<close> is \<open>null\<close>.\<close>

definition commitRoot :: "nat \<Rightarrow> nat \<Rightarrow> state \<Rightarrow> (error + state) option" where
  "commitRoot fuel depth s =
     bind_res (commitEach fuel depth (deletions s) s)
       (\<lambda>s1. case wipRoot s1 of
                None \<Rightarrow> Some (Inl TypeError)
              | Some root \<Rightarrow>
                  bind_res (commitWork fuel depth (child (heap s1 ! root)) s1)
                    (\<lambda>s2. Some (Inr (s2\<lparr>currentRoot := wipRoot s2, wipRoot := None\<rparr>))))"

subsection \<open>The work loop and the render entry point\<close>

text \<open>
  The loop \<open>while (nextUnitOfWork && !shouldYield)\<close>.  The deadline of the idle callback is
  read as the number of units it leaves room for: \<open>shouldYield\<close> starts false, and the
  argument counts the units performed before \<open>timeRemaining() < 1\<close> holds.
\<close>

fun performUnits :: "nat \<Rightarrow> nat \<Rightarrow> state \<Rightarrow> (error + state) option" where
  "performUnits fuel 0 s = Some (Inr s)"
| "performUnits fuel (Suc units) s =
     (case nextUnitOfWork s of
        None \<Rightarrow> Some (Inr s)
      | Some fiber \<Rightarrow>
          bind_res (performUnitOfWork fuel fiber s)
            (\<lambda>(s1, nxt). performUnits fuel units (s1\<lparr>nextUnitOfWork := nxt\<rparr>)))"

definition workLoop :: "nat \<Rightarrow> nat \<Rightarrow> state \<Rightarrow> (error + state) option" where
  "workLoop fuel deadline s =
     bind_res (performUnits fuel (Suc deadline) s)
       (\<lambda>s1. if nextUnitOfWork s1 = None \<and> wipRoot s1 \<noteq> None then commitRoot fuel fuel s1
              else Some (Inr s1))"

definition render :: "element \<Rightarrow> handle \<Rightarrow> state \<Rightarrow> state" where
  "render element container s =
     s\<lparr>heap := heap s @
          [\<lparr>ftype = None, props = Some \<lparr>attrs = [], children = [element]\<rparr>,
            domNode = Some container, parent = None, child = None, sibling = None,
            alternate = currentRoot s, effectTag = None\<rparr>],
       wipRoot := Some (length (heap s)),
       deletions := [],
       nextUnitOfWork := Some (length (heap s))\<rparr>"

section \<open>The synchronous variant\<close>

subsection \<open>Attribute diff\<close>

text \<open>\<open>JSON.stringify(a) !== JSON.stringify(b)\<close>: the text of a string, a number, a
  boolean or \<open>null\<close> determines the value; \<open>undefined\<close> and a function both give
  \<open>undefined\<close>.\<close>

definition jsonDiffers :: "jsval \<Rightarrow> jsval \<Rightarrow> bool" where
  "jsonDiffers a b =
     ((case a of JFun i src \<Rightarrow> JUndefined | _ \<Rightarrow> a) \<noteq> (case b of JFun i src \<Rightarrow> JUndefined | _ \<Rightarrow> b))"

definition attributeName :: "string \<Rightarrow> string" where
  "attributeName name = (if name = ''className'' then ''class'' else name)"

text \<open>The body of the first \<open>forEach\<close>, over the keys of the previous attributes.\<close>

definition removeOldProperty ::
  "handle \<Rightarrow> (string \<times> jsval) list \<Rightarrow> (string \<times> jsval) list \<Rightarrow> string \<Rightarrow> dnode list \<Rightarrow> dnode list" where
  "removeOldProperty dom0 prevProps nextProps name d =
     (let isEvent = (take 2 name = ''on'');
          isStyle = (name = ''style'');
          isGone = (name \<notin> set (map fst nextProps))
      in if isEvent \<and> (isGone \<or> lookup prevProps name \<noteq> lookup nextProps name) then d
         else if isStyle \<and> (isGone \<or> jsonDiffers (lookup prevProps name) (lookup nextProps name))
         then (if isGone then removeAttribute d dom0 ''style'' else d)
         else if \<not> isEvent \<and> \<not> isStyle \<and> (isGone \<or> lookup prevProps name \<noteq> lookup nextProps name)
         then (if name = ''nodeValue''
               then (if getNodeValue d dom0 \<noteq> Some (String_js (lookup nextProps name))
                     then setNodeValue d dom0 (String_js (lookup nextProps name)) else d)
               else removeAttribute d dom0 (attributeName name))
         else d)"

text \<open>The body of the second \<open>forEach\<close>, over the keys of the next attributes.\<close>

definition setNewProperty ::
  "handle \<Rightarrow> (string \<times> jsval) list \<Rightarrow> (string \<times> jsval) list \<Rightarrow> string \<Rightarrow> dnode list \<Rightarrow> dnode list" where
  "setNewProperty dom0 prevProps nextProps name d =
     (let isNew = (name \<notin> set (map fst prevProps));
          isValueChanged = (lookup prevProps name \<noteq> lookup nextProps name);
          isEvent = (take 2 name = ''on'');
          isStyle = (name = ''style'')
      in if isEvent \<and> (isNew \<or> isValueChanged) then d
         else if isStyle \<and> (isNew \<or> jsonDiffers (lookup prevProps name) (lookup nextProps name))
         then (if name = ''className'' then setAttribute d dom0 ''class'' (lookup nextProps name)
               else setAttribute d dom0 (attributeName name) (lookup nextProps name))
         else if \<not> isEvent \<and> \<not> isStyle \<and> (isNew \<or> isValueChanged)
         then (if name = ''nodeValue''
               then (if getNodeValue d dom0 \<noteq> Some (String_js (lookup nextProps name))
                     then setNodeValue d dom0 (String_js (lookup nextProps name)) else d)
               else setAttribute d dom0 (attributeName name) (lookup nextProps name))
         else d)"

text \<open>Assigning \<open>dom.className\<close> sets the \<open>class\<close> attribute.\<close>

definition updateDomProperties_gemini ::
  "dnode list \<Rightarrow> handle \<Rightarrow> (string \<times> jsval) list \<Rightarrow> (string \<times> jsval) list \<Rightarrow> dnode list" where
  "updateDomProperties_gemini d dom0 prevProps nextProps =
     (let d1 = fold (removeOldProperty dom0 prevProps nextProps)
                 (filter (\<lambda>name. name \<noteq> ''children'' \<and> name \<noteq> ''dom'') (map fst prevProps)) d;
          d2 = fold (setNewProperty dom0 prevProps nextProps)
                 (filter (\<lambda>name. name \<noteq> ''children'' \<and> name \<noteq> ''dom'') (map fst nextProps)) d1
      in if ''className'' \<in> set (map fst nextProps)
         then setAttribute d2 dom0 ''class'' (lookup nextProps ''className'')
         else if ''className'' \<in> set (map fst prevProps)
         then removeAttribute d2 dom0 ''class''
         else d2)"

definition updateDomProps_gemini ::
  "dnode list \<Rightarrow> handle \<Rightarrow> props option \<Rightarrow> props option \<Rightarrow> error + dnode list" where
  "updateDomProps_gemini d dom0 prevProps nextProps =
     (case prevProps of
        None \<Rightarrow> Inl TypeError
      | Some pp \<Rightarrow> (case nextProps of
          None \<Rightarrow> Inl TypeError
        | Some np \<Rightarrow> Inr (updateDomProperties_gemini d dom0 (attrs pp) (attrs np))))"

text \<open>\<open>createDomElement\<close> returns \<open>null\<close> for a fiber whose type is missing or is the
  empty string.\<close>

definition createDomElement_gemini :: "dnode list \<Rightarrow> fiber \<Rightarrow> error + dnode list \<times> handle option" where
  "createDomElement_gemini d fiber =
     (case ftype fiber of
        None \<Rightarrow> Inr (d, None)
      | Some t \<Rightarrow>
          if t = [] then Inr (d, None)
          else (let (d', dom0) = (if t = ''TEXT_ELEMENT'' then createTextNode d [] else createElementNode d t)
                in (case updateDomProps_gemini d' dom0 (Some emptyProps) (props fiber) of
                      Inl e \<Rightarrow> Inl e
                    | Inr d'' \<Rightarrow> Inr (d'', Some dom0))))"

subsection \<open>Reconciliation of the children of a fiber\<close>

fun reconcileLoop_gemini ::
  "nat \<Rightarrow> addr \<Rightarrow> element list \<Rightarrow> nat \<Rightarrow> addr option \<Rightarrow> addr option \<Rightarrow> state \<Rightarrow> (error + state) option" where
  "reconcileLoop_gemini 0 wipFiber elements index oldFiber prevSibling s = None"
| "reconcileLoop_gemini (Suc fuel) wipFiber elements index oldFiber prevSibling s =
     (if index < length elements \<or> oldFiber \<noteq> None then
        let element = (if index < length elements then elements ! index else Val JUndefined);
            sameType = (case oldFiber of None \<Rightarrow> False
                        | Some old \<Rightarrow> truthy element \<and> elementType element = ftype (heap s ! old));
            (s1, newFiber1) =
              (case oldFiber of
                 Some old \<Rightarrow>
                   if sameType
                   then (s\<lparr>heap := heap s @
                           [\<lparr>ftype = ftype (heap s ! old), props = elementProps element,
                             domNode = domNode (heap s ! old), parent = Some wipFiber,
                             child = None, sibling = None, alternate = Some old,
                             effectTag = Some UPDATE\<rparr>]\<rparr>, Some (length (heap s)))
                   else (s, None)
               | None \<Rightarrow> (s, None));
            (s2, newFiber) =
              (if truthy element \<and> \<not> sameType
               then (s1\<lparr>heap := heap s1 @
                       [\<lparr>ftype = elementType element, props = elementProps element,
                         domNode = None, parent = Some wipFiber,
                         child = None, sibling = None, alternate = None,
                         effectTag = Some PLACEMENT\<rparr>]\<rparr>, Some (length (heap s1)))
               else (s1, newFiber1));
            s3 = (case oldFiber of
                    Some old \<Rightarrow>
                      if \<not> sameType
                      then s2\<lparr>heap := (heap s2)[old := (heap s2 ! old)\<lparr>effectTag := Some DELETION\<rparr>],
                              deletions := deletions s2 @ [old]\<rparr>
                      else s2
                  | None \<Rightarrow> s2);
            oldFiber' = (case oldFiber of Some old \<Rightarrow> sibling (heap s3 ! old) | None \<Rightarrow> None)
        in if index = 0
           then reconcileLoop_gemini fuel wipFiber elements (index + 1) oldFiber' newFiber
                  (s3\<lparr>heap := (heap s3)[wipFiber := (heap s3 ! wipFiber)\<lparr>child := newFiber\<rparr>]\<rparr>)
           else (case prevSibling of
                   Some prev \<Rightarrow>
                     if truthy element
                     then reconcileLoop_gemini fuel wipFiber elements (index + 1) oldFiber' newFiber
                            (s3\<lparr>heap := (heap s3)[prev := (heap s3 ! prev)\<lparr>sibling := newFiber\<rparr>]\<rparr>)
                     else reconcileLoop_gemini fuel wipFiber elements (index + 1) oldFiber' newFiber s3
                 | None \<Rightarrow> reconcileLoop_gemini fuel wipFiber elements (index + 1) oldFiber' newFiber s3)
      else Some (Inr s))"

definition reconcileChildren_gemini :: "nat \<Rightarrow> addr \<Rightarrow> element list \<Rightarrow> state \<Rightarrow> (error + state) option" where
  "reconcileChildren_gemini fuel wipFiber elements s =
     reconcileLoop_gemini fuel wipFiber elements 0
       (case alternate (heap s ! wipFiber) of None \<Rightarrow> None | Some alt \<Rightarrow> child (heap s ! alt))
       None s"

subsection \<open>One unit of work\<close>

definition performUnitOfWork_gemini :: "nat \<Rightarrow> addr \<Rightarrow> state \<Rightarrow> (error + state \<times> addr option) option" where
  "performUnitOfWork_gemini fuel fiber s =
     bind_res
       (case domNode (heap s ! fiber) of
          None \<Rightarrow>
            (case createDomElement_gemini (document s) (heap s ! fiber) of
               Inl e \<Rightarrow> Some (Inl e)
             | Inr (d, dom0) \<Rightarrow>
                 Some (Inr (s\<lparr>heap := (heap s)[fiber := (heap s ! fiber)\<lparr>domNode := dom0\<rparr>],
                             document := d\<rparr>)))
        | Some dom0 \<Rightarrow> Some (Inr s))
       (\<lambda>s1. case props (heap s1 ! fiber) of
                None \<Rightarrow> Some (Inl TypeError)
              | Some p \<Rightarrow>
                  bind_res (reconcileChildren_gemini fuel fiber (children p) s1)
                    (\<lambda>s2. case nextUnit fuel (heap s2) fiber of
                             None \<Rightarrow> None
                           | Some nxt \<Rightarrow> Some (Inr (s2, nxt))))"

subsection \<open>Commit\<close>

fun commitDeletion_gemini ::
  "nat \<Rightarrow> fiber list \<Rightarrow> dnode list \<Rightarrow> addr \<Rightarrow> handle \<Rightarrow> (error + dnode list) option" where
  "commitDeletion_gemini 0 h d fiber domParent = None"
| "commitDeletion_gemini (Suc fuel) h d fiber domParent =
     (case domNode (h ! fiber) of
        Some dom0 \<Rightarrow>
          if contains d domParent dom0 then Some (removeChild d domParent dom0) else Some (Inr d)
      | None \<Rightarrow>
          (case child (h ! fiber) of
             Some c \<Rightarrow> commitDeletion_gemini fuel h d c domParent
           | None \<Rightarrow> Some (Inr d)))"

text \<open>The effects, applied only under a parent handle (\<open>if (domParent) { ... }\<close>).\<close>

definition commitEffect_gemini :: "nat \<Rightarrow> addr \<Rightarrow> handle option \<Rightarrow> state \<Rightarrow> (error + state) option" where
  "commitEffect_gemini fuel fiber domParent s =
     (case domParent of
        None \<Rightarrow> Some (Inr s)
      | Some domParent \<Rightarrow>
          if effectTag (heap s ! fiber) = Some PLACEMENT \<and> domNode (heap s ! fiber) \<noteq> None
          then (case appendChild (document s) domParent (the (domNode (heap s ! fiber))) of
                  Inl e \<Rightarrow> Some (Inl e)
                | Inr d \<Rightarrow> Some (Inr (s\<lparr>document := d\<rparr>)))
          else if effectTag (heap s ! fiber) = Some UPDATE \<and> domNode (heap s ! fiber) \<noteq> None
          then (case alternate (heap s ! fiber) of
                  None \<Rightarrow> Some (Inl TypeError)
                | Some alt \<Rightarrow>
                    (case updateDomProps_gemini (document s) (the (domNode (heap s ! fiber)))
                            (props (heap s ! alt)) (props (heap s ! fiber)) of
                       Inl e \<Rightarrow> Some (Inl e)
                     | Inr d \<Rightarrow> Some (Inr (s\<lparr>document := d\<rparr>))))
          else if effectTag (heap s ! fiber) = Some DELETION
          then bind_res (commitDeletion_gemini fuel (heap s) (document s) fiber domParent)
                 (\<lambda>d. Some (Inr (s\<lparr>document := d\<rparr>)))
          else Some (Inr s))"

text \<open>The children and the siblings are visited in any case, and the tag of the fiber
  is cleared after them.\<close>

fun commitWork_gemini :: "nat \<Rightarrow> nat \<Rightarrow> addr option \<Rightarrow> state \<Rightarrow> (error + state) option" where
  "commitWork_gemini fuel 0 fiber s = None"
| "commitWork_gemini fuel (Suc depth) None s = Some (Inr s)"
| "commitWork_gemini fuel (Suc depth) (Some fiber) s =
     (case findDomParent fuel (heap s) (parent (heap s ! fiber)) of
        None \<Rightarrow> None
      | Some domParent \<Rightarrow>
          bind_res (commitEffect_gemini fuel fiber domParent s)
            (\<lambda>s1. bind_res (commitWork_gemini fuel depth (child (heap s1 ! fiber)) s1)
                     (\<lambda>s2. bind_res (commitWork_gemini fuel depth (sibling (heap s2 ! fiber)) s2)
                              (\<lambda>s3. Some (Inr (s3\<lparr>heap := (heap s3)[fiber := (heap s3 ! fiber)\<lparr>effectTag := None\<rparr>]\<rparr>))))))"

fun commitEach_gemini :: "nat \<Rightarrow> nat \<Rightarrow> addr list \<Rightarrow> state \<Rightarrow> (error + state) option" where
  "commitEach_gemini fuel depth [] s = Some (Inr s)"
| "commitEach_gemini fuel depth (fiber # fibers) s =
     bind_res (commitWork_gemini fuel depth (Some fiber) s) (commitEach_gemini fuel depth fibers)"

definition commitRoot_gemini :: "nat \<Rightarrow> nat \<Rightarrow> state \<Rightarrow> (error + state) option" where
  "commitRoot_gemini fuel depth s =
     bind_res (commitEach_gemini fuel depth (deletions s) s)
       (\<lambda>s1. case wipRoot s1 of
                None \<Rightarrow> Some (Inl TypeError)
              | Some root \<Rightarrow>
                  bind_res (case child (heap s1 ! root) of
                              None \<Rightarrow> Some (Inr s1)
                            | Some c \<Rightarrow> commitWork_gemini fuel depth (Some c) s1)
                    (\<lambda>s2. Some (Inr (s2\<lparr>currentRoot := wipRoot s2, wipRoot := None\<rparr>))))"

subsection \<open>The work loop and the render entry point\<close>

fun performAll_gemini :: "nat \<Rightarrow> state \<Rightarrow> (error + state) option" where
  "performAll_gemini 0 s = None"
| "performAll_gemini (Suc fuel) s =
     (case nextUnitOfWork s of
        None \<Rightarrow> Some (Inr s)
      | Some fiber \<Rightarrow>
          bind_res (performUnitOfWork_gemini (Suc fuel) fiber s)
            (\<lambda>(s1, nxt). performAll_gemini fuel (s1\<lparr>nextUnitOfWork := nxt\<rparr>)))"

definition workLoop_gemini :: "nat \<Rightarrow> state \<Rightarrow> (error + state) option" where
  "workLoop_gemini fuel s =
     bind_res (performAll_gemini fuel s)
       (\<lambda>s1. if nextUnitOfWork s1 = None \<and> wipRoot s1 \<noteq> None then commitRoot_gemini fuel fuel s1
              else Some (Inr s1))"

definition render_gemini :: "nat \<Rightarrow> element \<Rightarrow> handle \<Rightarrow> state \<Rightarrow> (error + state) option" where
  "render_gemini fuel element container s =
     workLoop_gemini fuel
       (s\<lparr>heap := heap s @
            [\<lparr>ftype = None, props = Some \<lparr>attrs = [], children = [element]\<rparr>,
              domNode = Some container, parent = None, child = None, sibling = None,
              alternate = currentRoot s, effectTag = None\<rparr>],
         wipRoot := Some (length (heap s)),
         deletions := [],
         nextUnitOfWork := Some (length (heap s))\<rparr>)"

section \<open>Notions used to state the properties\<close>

text \<open>The state before the first render: no fiber, and a document holding the
  container element.\<close>

definition initialState :: state where
  "initialState =
     \<lparr>heap = [],
      document = [\<lparr>nodeKind = ElementNode ''div'', properties = [], attributes = [], nodeValue = [],
                   listeners = [], childNodes = []\<rparr>],
      nextUnitOfWork = None, currentRoot = None, wipRoot = None, deletions = []\<rparr>"

definition childrenOf :: "element \<Rightarrow> element list" where
  "childrenOf e = (case e of Elem t kvs cs \<Rightarrow> cs | _ \<Rightarrow> [])"

text \<open>The builder as the specification words it: a raw value becomes a text node
  carrying the stringified value and no children; an array child contributes its items
  (one level).\<close>

definition textNodeOf :: "jsval \<Rightarrow> element" where
  "textNodeOf v = Elem ''TEXT_ELEMENT'' [(''nodeValue'', JStr (String_js v))] []"

fun wrapped :: "element \<Rightarrow> element" where
  "wrapped (Val v) = textNodeOf v"
| "wrapped e = e"

fun flattenedOnce :: "element \<Rightarrow> element list" where
  "flattenedOnce (Arr xs) = xs"
| "flattenedOnce e = [e]"

text \<open>What the builder of the reconciling variant does to one child.\<close>

fun wrappedRaw :: "element \<Rightarrow> element" where
  "wrappedRaw (Val v) = (if v = JNull then Val JNull else Elem ''TEXT_ELEMENT'' [(''nodeValue'', v)] [])"
| "wrappedRaw e = e"

text \<open>The path from a fiber to the root along the \<open>parent\<close> links, and the next unit
  of work as the rule states it: the first child if there is one, else the sibling of
  the first fiber on the path that has one, else nothing.\<close>

fun parentPath :: "fiber list \<Rightarrow> addr \<Rightarrow> addr list \<Rightarrow> bool" where
  "parentPath h a [] = False"
| "parentPath h a [x] = (x = a \<and> parent (h ! a) = None)"
| "parentPath h a (x # y # ys) = (x = a \<and> parent (h ! a) = Some y \<and> parentPath h y (y # ys))"

definition nextByRule :: "fiber list \<Rightarrow> addr \<Rightarrow> addr list \<Rightarrow> addr option" where
  "nextByRule h fiber path =
     (case child (h ! fiber) of
        Some c \<Rightarrow> Some c
      | None \<Rightarrow> (case find (\<lambda>x. sibling (h ! x) \<noteq> None) path of
                    None \<Rightarrow> None
                  | Some x \<Rightarrow> sibling (h ! x)))"

text \<open>Description trees used as concrete inputs.\<close>

definition sampleTree :: element where
  "sampleTree =
     createElement ''div'' None
       [createElement ''h1'' None [Val (JStr ''A'')], createElement ''p'' None [Val (JStr ''B'')]]"

definition treeWithNullChild :: element where
  "treeWithNullChild = createElement ''div'' None [Val JNull, Val (JStr ''x'')]"

text \<open>
  The old child fibers of a fiber, as the list of fibers met along the \<open>sibling\<close> links
  from a first one.
\<close>

fun siblingChain :: "fiber list \<Rightarrow> addr option \<Rightarrow> addr list \<Rightarrow> bool" where
  "siblingChain h None olds = (olds = [])"
| "siblingChain h (Some a) [] = False"
| "siblingChain h (Some a) (x # xs) = (x = a \<and> a < length h \<and> siblingChain h (sibling (h ! a)) xs)"

text \<open>The comparison made at each position, and the fiber the reconciler is to produce
  for a present new child: an update fiber on the old fiber's node when the kinds are
  equal, a placement fiber without node and without alternate otherwise.\<close>

definition sameType :: "fiber list \<Rightarrow> element \<Rightarrow> addr \<Rightarrow> bool" where
  "sameType h e old = (truthy e \<and> elementType e = ftype (h ! old))"

definition expectedFiber :: "addr \<Rightarrow> fiber list \<Rightarrow> element \<Rightarrow> addr option \<Rightarrow> fiber" where
  "expectedFiber wipFiber h e oldFiber =
     (case oldFiber of
        None \<Rightarrow>
          \<lparr>ftype = elementType e, props = elementProps e, domNode = None, parent = Some wipFiber,
           child = None, sibling = None, alternate = None, effectTag = Some PLACEMENT\<rparr>
      | Some old \<Rightarrow>
          if sameType h e old
          then \<lparr>ftype = ftype (h ! old), props = elementProps e, domNode = domNode (h ! old),
                parent = Some wipFiber, child = None, sibling = None, alternate = Some old,
                effectTag = Some UPDATE\<rparr>
          else \<lparr>ftype = elementType e, props = elementProps e, domNode = None, parent = Some wipFiber,
                child = None, sibling = None, alternate = None, effectTag = Some PLACEMENT\<rparr>)"

text \<open>The old fibers that are not matched by a new child of the same kind at their
  position, in order.\<close>

fun unmatched :: "fiber list \<Rightarrow> element list \<Rightarrow> addr list \<Rightarrow> addr list" where
  "unmatched h es [] = []"
| "unmatched h [] (old # olds) = old # unmatched h [] olds"
| "unmatched h (e # es) (old # olds) =
     (if sameType h e old then unmatched h es olds else old # unmatched h es olds)"

text \<open>What the loop, entered at position \<open>i\<close>, has done to the state when it ends.\<close>

definition reconciled ::
  "addr \<Rightarrow> element list \<Rightarrow> nat \<Rightarrow> addr list \<Rightarrow> addr option \<Rightarrow> state \<Rightarrow> state \<Rightarrow> bool" where
  "reconciled wipFiber es i olds prev s s' \<longleftrightarrow>
     length (heap s') = length (heap s) + (length es - i) \<and>
     document s' = document s \<and> nextUnitOfWork s' = nextUnitOfWork s \<and>
     currentRoot s' = currentRoot s \<and> wipRoot s' = wipRoot s \<and>
     deletions s' = deletions s @ unmatched (heap s) (drop i es) olds \<and>
     (\<forall>a < length (heap s).
        ftype (heap s' ! a) = ftype (heap s ! a) \<and> props (heap s' ! a) = props (heap s ! a) \<and>
        domNode (heap s' ! a) = domNode (heap s ! a) \<and> parent (heap s' ! a) = parent (heap s ! a) \<and>
        alternate (heap s' ! a) = alternate (heap s ! a) \<and>
        effectTag (heap s' ! a) =
          (if a \<in> set (unmatched (heap s) (drop i es) olds) then Some DELETION
           else effectTag (heap s ! a)) \<and>
        sibling (heap s' ! a) =
          (if prev = Some a \<and> 0 < i \<and> i < length es then Some (length (heap s))
           else sibling (heap s ! a)) \<and>
        child (heap s' ! a) =
          (if a = wipFiber \<and> i = 0 \<and> (es \<noteq> [] \<or> olds \<noteq> [])
           then (if es = [] then None else Some (length (heap s)))
           else child (heap s ! a))) \<and>
     (\<forall>k < length es - i.
        heap s' ! (length (heap s) + k) =
          (expectedFiber wipFiber (heap s) (es ! (i + k)) (if k < length olds then Some (olds ! k) else None))
            \<lparr>sibling := (if i + k + 1 < length es then Some (length (heap s) + k + 1) else None)\<rparr>)"


text \<open>A list rendered with three items, committed, and rendered again with one item
  kept and a paragraph in place of the second; the state is that of the second pass
  after the unit of work of the root.\<close>

definition listItem :: "string \<Rightarrow> element" where
  "listItem t = createElement ''li'' None [Val (JStr t)]"

definition listOfThree :: element where
  "listOfThree = createElement ''ul'' None [listItem ''1'', listItem ''2'', listItem ''3'']"

definition listChanged :: element where
  "listChanged = createElement ''ul'' None [listItem ''1'', createElement ''p'' None []]"

definition secondPassState :: state where
  "secondPassState =
     projr (the (performUnits 20 1
       (render listChanged 0 (projr (the (workLoop 20 8 (render listOfThree 0 initialState)))))))"





text \<open>More concrete inputs: the list rendered again with one and with two items, and
  the list built with the builder of the synchronous variant.\<close>

definition listOfOne :: element where
  "listOfOne = createElement ''ul'' None [listItem ''1'']"


definition listItem_gemini :: "string \<Rightarrow> element" where
  "listItem_gemini t = createElement_gemini ''li'' None [Val (JStr t)]"

definition listOfThree_gemini :: element where
  "listOfThree_gemini =
     createElement_gemini ''ul'' None [listItem_gemini ''1'', listItem_gemini ''2'', listItem_gemini ''3'']"

definition listOfOne_gemini :: element where
  "listOfOne_gemini = createElement_gemini ''ul'' None [listItem_gemini ''1'']"


text \<open>
  The nodes of a description tree below its root, and all its nodes.
\<close>

fun descendants :: "element \<Rightarrow> nat" where
  "descendants (Elem t kvs cs) = sum_list (map (\<lambda>c. Suc (descendants c)) cs)"
| "descendants (Val v) = 0"
| "descendants (Arr xs) = 0"

definition nodes :: "element \<Rightarrow> nat" where
  "nodes e = Suc (descendants e)"

text \<open>
  A description tree as the data model has it: every child of a node is a node, so that
  no child is a bare value or an array.
\<close>

fun wellFormed :: "element \<Rightarrow> bool" where
  "wellFormed (Elem t kvs cs) = list_all wellFormed cs"
| "wellFormed (Val v) = False"
| "wellFormed (Arr xs) = False"

text \<open>
  The fiber at \<open>x\<close> stands for the element \<open>e\<close> under the parent \<open>p\<close>: it has the type and
  the props of \<open>e\<close>.  In a pass without a committed tree (\<open>m = None\<close>) it is tagged
  \<open>PLACEMENT\<close> and has no alternate; in a pass over a committed tree whose fibers lie
  \<open>shift\<close> addresses below (\<open>m = Some shift\<close>) it is tagged \<open>UPDATE\<close> and its alternate is
  the fiber \<open>shift\<close> addresses below it.
\<close>

definition fiberFor :: "nat option \<Rightarrow> fiber list \<Rightarrow> addr \<Rightarrow> addr \<Rightarrow> element \<Rightarrow> bool" where
  "fiberFor m h x p e \<longleftrightarrow>
     x < length h \<and> ftype (h ! x) = elementType e \<and> props (h ! x) = elementProps e \<and>
     parent (h ! x) = Some p \<and>
     (case m of
        None \<Rightarrow> effectTag (h ! x) = Some PLACEMENT \<and> alternate (h ! x) = None
      | Some shift \<Rightarrow> effectTag (h ! x) = Some UPDATE \<and> alternate (h ! x) = Some (x - shift) \<and> shift \<le> x)"

text \<open>
  The fiber tree at \<open>x\<close> has the shape of the element \<open>e\<close>: \<open>x\<close> stands for \<open>e\<close> and has a
  node of the document, and its \<open>child\<close> link leads to the fibers of the children of \<open>e\<close>,
  from left to right along the \<open>sibling\<close> links, the last of which has no sibling.  The
  fibers of the children of one node are allocated together, at consecutive addresses
  from \<open>lo\<close>, and the fibers below each child after them, child by child.
\<close>

fun builtTree :: "nat option \<Rightarrow> fiber list \<Rightarrow> addr \<Rightarrow> addr \<Rightarrow> element \<Rightarrow> nat \<Rightarrow> bool"
  and builtChildren :: "nat option \<Rightarrow> fiber list \<Rightarrow> addr option \<Rightarrow> addr \<Rightarrow> element list \<Rightarrow> nat \<Rightarrow> nat \<Rightarrow> bool" where
  "builtTree m h x p (Elem t kvs cs) lo =
     (fiberFor m h x p (Elem t kvs cs) \<and> domNode (h ! x) \<noteq> None \<and>
      builtChildren m h (child (h ! x)) x cs lo (lo + length cs))"
| "builtTree m h x p (Val v) lo = False"
| "builtTree m h x p (Arr xs) lo = False"
| "builtChildren m h c p [] r d = (c = None)"
| "builtChildren m h c p (e # es) r d =
     (c = Some r \<and> builtTree m h r p e d \<and> builtChildren m h (sibling (h ! r)) p es (Suc r) (d + descendants e))"

text \<open>
  The sibling of the first fiber that has one on a path of parent links.
\<close>

definition nextAbove :: "fiber list \<Rightarrow> addr list \<Rightarrow> addr option" where
  "nextAbove h path =
     (case find (\<lambda>x. sibling (h ! x) \<noteq> None) path of None \<Rightarrow> None | Some x \<Rightarrow> sibling (h ! x))"


text \<open>
  The situation of the work loop when it reaches the fiber \<open>a\<close> of an element \<open>e\<close> whose
  children are not reconciled yet (in a pass over a committed tree, the fibers of that
  tree for \<open>e\<close> lie below the address \<open>M\<close>, which the pass does not write), and the
  situation when the units of work of \<open>e\<close> and of all the nodes below it are done.
\<close>

definition pendingTree ::
  "nat option \<Rightarrow> nat option \<Rightarrow> nat \<Rightarrow> nat \<Rightarrow> element \<Rightarrow> state \<Rightarrow> addr \<Rightarrow> addr \<Rightarrow> addr list \<Rightarrow> addr \<Rightarrow> bool" where
  "pendingTree m mo M fuel e s a p path po \<longleftrightarrow>
     wellFormed e \<and> nextUnitOfWork s = Some a \<and> fiberFor m (heap s) a p e \<and>
     child (heap s ! a) = None \<and> parentPath (heap s) a path \<and>
     (\<forall>x \<in> set path. x < length (heap s)) \<and> nodes e + length path < fuel \<and>
     (case m of
        None \<Rightarrow> True
      | Some shift \<Rightarrow>
          domNode (heap s ! a) \<noteq> None \<and> shift \<le> length (heap s) \<and>
          builtTree mo (heap s) (a - shift) po e (length (heap s) - shift) \<and>
          M \<le> a \<and> a - shift < M \<and> length (heap s) - shift + descendants e \<le> M)"

definition passedTree ::
  "nat option \<Rightarrow> nat \<Rightarrow> element \<Rightarrow> state \<Rightarrow> addr \<Rightarrow> addr \<Rightarrow> addr list \<Rightarrow> state \<Rightarrow> bool" where
  "passedTree m fuel e s a p path s' \<longleftrightarrow>
     performUnits fuel (nodes e) s = Some (Inr s') \<and>
     nextUnitOfWork s' = nextAbove (heap s) path \<and>
     length (heap s') = length (heap s) + descendants e \<and>
     builtTree m (heap s') a p e (length (heap s)) \<and>
     (\<forall>b < length (heap s). b \<noteq> a \<longrightarrow> heap s' ! b = heap s ! b) \<and>
     sibling (heap s' ! a) = sibling (heap s ! a) \<and>
     currentRoot s' = currentRoot s \<and> wipRoot s' = wipRoot s \<and> deletions s' = deletions s \<and>
     (m \<noteq> None \<longrightarrow> document s' = document s)"

text \<open>
  The fibers just made for the children \<open>es\<close> of the fiber \<open>a\<close>, at the addresses from \<open>r\<close>.
\<close>

definition pendingChildren :: "nat option \<Rightarrow> fiber list \<Rightarrow> addr \<Rightarrow> addr \<Rightarrow> element list \<Rightarrow> bool" where
  "pendingChildren m h r a es \<longleftrightarrow>
     (\<forall>j < length es.
        fiberFor m h (r + j) a (es ! j) \<and> child (h ! (r + j)) = None \<and>
        sibling (h ! (r + j)) = (if j + 1 < length es then Some (r + j + 1) else None) \<and>
        (m \<noteq> None \<longrightarrow> domNode (h ! (r + j)) \<noteq> None))"

section \<open>The element builder\<close>

lemma flat_concat: "flat cs = concat (map flattenedOnce cs)"
  by (induction cs rule: flat.induct) auto

text \<open>
  The text of a number: the digits of a safe integer, rounded digits followed by zeros
  above \<open>2^53\<close>, and the exponent form from \<open>10^21\<close> on.
\<close>

lemma String_js_numbers:
  "String_js (JNum 9007199254740991) = ''9007199254740991''
   \<and> String_js (JNum 1152921504606846976) = ''1152921504606847000''
   \<and> String_js (JNum 999999999999999999999) = ''1e+21''
   \<and> String_js (JNum 1000000000000000000000) = ''1e+21''
   \<and> String_js (JNum (- 1180591620717411303424)) = ''-1.1805916207174113e+21''
   \<and> String_js (JNum 100000000000000000000000) = ''1e+23''"
  by code_simp

lemma wrapChild_gemini_wrapped: "wrapChild_gemini c = wrapped c"
  by (cases c) (auto simp: textNodeOf_def createTextElement_gemini_def elim: typeof.elims)

lemma wrapChild_wrappedRaw: "wrapChild c = wrappedRaw c"
  by (cases c) (auto simp: createTextElement_def elim: typeof.elims)

text \<open>
  C6, as stated, fails for the builder of the reconciling variant: a number child is
  wrapped without being stringified, and an array child is kept as it is.
\<close>

theorem createElement_not_stringified_counterexample:
  "childrenOf (createElement ''p'' None [Val (JNum 5), Arr [Val (JStr ''a'')]])
     \<noteq> map wrapped (concat (map flattenedOnce [Val (JNum 5), Arr [Val (JStr ''a'')]]))"
  by (simp add: childrenOf_def createElement_def createTextElement_def textNodeOf_def)

text \<open>
  C6 (amended).  The builder of the synchronous variant flattens the children one level
  and then wraps every raw value, \<open>null\<close> included, into a text node that carries the
  stringified value and has no children.  The builder of the reconciling variant does
  not flatten; it wraps every value other than \<open>null\<close> into a text node that carries the
  value as it is and has no children, and keeps \<open>null\<close> and arrays as they are.
\<close>

theorem createElement_children:
  "childrenOf (createElement_gemini t p cs) = map wrapped (concat (map flattenedOnce cs))
   \<and> childrenOf (createElement t p cs) = map wrappedRaw cs"
  by (simp add: childrenOf_def createElement_gemini_def createElement_def flat_concat
      wrapChild_gemini_wrapped wrapChild_wrappedRaw)

theorem createElement_children_witness:
  "childrenOf (createElement_gemini ''ul'' None
       [Val (JNum 15), Arr [Val JNull, Arr [Val (JBool True)]], Val (JNum 1000000000000000000000)])
     = [Elem ''TEXT_ELEMENT'' [(''nodeValue'', JStr ''15'')] [],
        Elem ''TEXT_ELEMENT'' [(''nodeValue'', JStr ''null'')] [],
        Arr [Val (JBool True)],
        Elem ''TEXT_ELEMENT'' [(''nodeValue'', JStr ''1e+21'')] []]
   \<and> childrenOf (createElement ''ul'' None [Val (JNum 15), Arr [Val JNull]])
     = [Elem ''TEXT_ELEMENT'' [(''nodeValue'', JNum 15)] [], Arr [Val JNull]]"
proof -
  have n: "numberToString 15 = ''15''" "numberToString 1000000000000000000000 = ''1e+21''"
    by code_simp+
  from createElement_children [of "''ul''" None
      "[Val (JNum 15), Arr [Val JNull, Arr [Val (JBool True)]], Val (JNum 1000000000000000000000)]"]
    createElement_children [of "''ul''" None "[Val (JNum 15), Arr [Val JNull]]"]
  show ?thesis by (simp add: textNodeOf_def n)
qed

section \<open>The next unit of work\<close>

lemma siblingAbove_path:
  "parentPath h a path \<Longrightarrow> length path < fuel \<Longrightarrow>
   siblingAbove fuel h (Some a) =
     Some (case find (\<lambda>x. sibling (h ! x) \<noteq> None) path of None \<Rightarrow> None | Some x \<Rightarrow> sibling (h ! x))"
proof (induction h a path arbitrary: fuel rule: parentPath.induct)
  case (1 h a)
  then show ?case by simp
next
  case (2 h a x)
  then obtain k where "fuel = Suc (Suc k)"
    by (cases fuel; simp; cases "fuel - 1"; simp)
  with 2 show ?case by (auto split: option.splits)
next
  case (3 h a x y ys)
  then obtain k where "fuel = Suc k" by (cases fuel) auto
  with 3 show ?case by (auto split: option.splits)
qed

lemma nextUnit_rule:
  "parentPath h a path \<Longrightarrow> length path < fuel \<Longrightarrow> nextUnit fuel h a = Some (nextByRule h a path)"
  by (simp add: nextUnit_def nextByRule_def siblingAbove_path split: option.splits)

text \<open>
  C5.  Once the fiber has been updated, the unit of work returns as next unit the first
  child of the fiber if it has one; otherwise the sibling of the first fiber that has
  one on the way up the parent links, the fiber itself first; and no fiber when the root
  is passed without a sibling.
\<close>

theorem performUnitOfWork_next_unit:
  "updateHostComponent fuel fiber s = Some (Inr s1) \<Longrightarrow> parentPath (heap s1) fiber path \<Longrightarrow>
   length path < fuel \<Longrightarrow>
   performUnitOfWork fuel fiber s = Some (Inr (s1, nextByRule (heap s1) fiber path))"
  by (simp add: performUnitOfWork_def bind_res_def nextUnit_rule)

theorem performUnitOfWork_next_unit_witness:
  "\<exists>s1. performUnitOfWork 5 0 (render sampleTree 0 initialState) = Some (Inr (s1, Some 1))"
proof -
  let ?s = "render sampleTree 0 initialState"
  let ?s1 = "projr (the (updateHostComponent 5 0 ?s))"
  have h1: "updateHostComponent 5 0 ?s = Some (Inr ?s1)" by code_simp
  have h2: "parentPath (heap ?s1) 0 [0]" by code_simp
  have h3: "length [0::nat] < 5" by simp
  have h4: "nextByRule (heap ?s1) 0 [0] = Some 1" by code_simp
  from performUnitOfWork_next_unit [OF h1 h2 h3] h4 show ?thesis by auto
qed

section \<open>The render entry point\<close>

text \<open>
  C8, as stated, fails: a render call made while a pass is in flight is not rejected.
  It replaces the root of the pass in flight and its next unit of work.
\<close>

theorem render_in_flight_counterexample:
  "wipRoot (render sampleTree 0 initialState) = Some 0
   \<and> nextUnitOfWork (render sampleTree 0 initialState) = Some 0
   \<and> wipRoot (render sampleTree 0 (render sampleTree 0 initialState)) = Some 1
   \<and> nextUnitOfWork (render sampleTree 0 (render sampleTree 0 initialState)) = Some 1"
  by (simp add: render_def initialState_def)

text \<open>
  C8 (amended).  Every render call, whether or not a pass is in flight, starts a new
  pass: it allocates a root fiber on the container whose alternate is the committed
  root, makes it the root of the pass and the next unit of work, and empties the list of
  deletions; the committed root and the document are left as they are.  No call is
  rejected.
\<close>

theorem render_starts_pass:
  "heap (render element container s) =
     heap s @ [\<lparr>ftype = None, props = Some \<lparr>attrs = [], children = [element]\<rparr>,
                domNode = Some container, parent = None, child = None, sibling = None,
                alternate = currentRoot s, effectTag = None\<rparr>]
   \<and> wipRoot (render element container s) = Some (length (heap s))
   \<and> nextUnitOfWork (render element container s) = Some (length (heap s))
   \<and> deletions (render element container s) = []
   \<and> currentRoot (render element container s) = currentRoot s
   \<and> document (render element container s) = document s"
  by (simp add: render_def)

section \<open>Reconciliation\<close>

lemma state_upd_swap: "s\<lparr>heap := H, deletions := D\<rparr> = s\<lparr>deletions := D, heap := H\<rparr>"
  by simp

lemma nth_list_update_any: "xs[i := x] ! j = (if i = j \<and> i < length xs then x else xs ! j)"
  by (cases "i < length xs") (auto simp: nth_list_update list_update_beyond)

lemma loop_present:
  assumes "index < length elements" "truthy (elements ! index)"
    and "\<forall>old. oldFiber = Some old \<longrightarrow> old < length (heap s)"
  shows "reconcileLoop (Suc fuel) wipFiber elements index oldFiber prevSibling s =
    (let e = elements ! index;
         h0 = heap s @ [expectedFiber wipFiber (heap s) e oldFiber];
         dl = (case oldFiber of None \<Rightarrow> [] | Some old \<Rightarrow> if sameType (heap s) e old then [] else [old]);
         h1 = (case oldFiber of None \<Rightarrow> h0
               | Some old \<Rightarrow> if sameType (heap s) e old then h0
                              else h0[old := (h0 ! old)\<lparr>effectTag := Some DELETION\<rparr>]);
         oldFiber' = (case oldFiber of Some old \<Rightarrow> sibling (heap s ! old) | None \<Rightarrow> None)
     in if index = 0
        then reconcileLoop fuel wipFiber elements (Suc index) oldFiber' (Some (length (heap s)))
               (s\<lparr>deletions := deletions s @ dl,
                  heap := h1[wipFiber := (h1 ! wipFiber)\<lparr>child := Some (length (heap s))\<rparr>]\<rparr>)
        else (case prevSibling of
                None \<Rightarrow> Some (Inl TypeError)
              | Some prev \<Rightarrow>
                  reconcileLoop fuel wipFiber elements (Suc index) oldFiber' (Some (length (heap s)))
                    (s\<lparr>deletions := deletions s @ dl,
                       heap := h1[prev := (h1 ! prev)\<lparr>sibling := Some (length (heap s))\<rparr>]\<rparr>)))"
  using assms
  by (cases oldFiber)
     (auto simp: Let_def expectedFiber_def sameType_def nth_append state_upd_swap
           split: option.splits)

lemma loop_absent:
  assumes "\<not> index < length elements" "old < length (heap s)"
  shows "reconcileLoop (Suc fuel) wipFiber elements index (Some old) prevSibling s =
    (let h1 = (heap s)[old := (heap s ! old)\<lparr>effectTag := Some DELETION\<rparr>]
     in reconcileLoop fuel wipFiber elements (Suc index) (sibling (heap s ! old)) None
          (s\<lparr>deletions := deletions s @ [old],
             heap := (if index = 0 then h1[wipFiber := (h1 ! wipFiber)\<lparr>child := None\<rparr>] else h1)\<rparr>))"
  using assms
  by (auto simp: Let_def state_upd_swap)

lemma loop_done:
  "\<not> index < length elements \<Longrightarrow> reconcileLoop (Suc fuel) wipFiber elements index None prevSibling s = Some (Inr s)"
  by simp

lemma siblingChain_lt: "siblingChain h x xs \<Longrightarrow> a \<in> set xs \<Longrightarrow> a < length h"
  by (induction h x xs rule: siblingChain.induct) auto

lemma siblingChain_frame:
  "siblingChain h x xs \<Longrightarrow> length h \<le> length h' \<Longrightarrow>
   (\<And>a. a \<in> set xs \<Longrightarrow> sibling (h' ! a) = sibling (h ! a)) \<Longrightarrow> siblingChain h' x xs"
  by (induction h x xs rule: siblingChain.induct) auto

lemma unmatched_frame:
  "(\<And>a. a \<in> set olds \<Longrightarrow> ftype (h' ! a) = ftype (h ! a)) \<Longrightarrow> unmatched h' es olds = unmatched h es olds"
  by (induction h es olds rule: unmatched.induct) (auto simp: sameType_def)

lemma unmatched_Nil: "unmatched h [] olds = olds"
  by (induction olds) auto

lemma unmatched_subset: "set (unmatched h es olds) \<subseteq> set olds"
  by (induction h es olds rule: unmatched.induct) auto

lemma expectedFiber_frame:
  "(\<And>a. old = Some a \<Longrightarrow> ftype (h' ! a) = ftype (h ! a) \<and> domNode (h' ! a) = domNode (h ! a)) \<Longrightarrow>
   expectedFiber w h' e old = expectedFiber w h e old"
  by (auto simp: expectedFiber_def sameType_def split: option.splits)

lemma loop_present_gemini:
  assumes "index < length elements" "truthy (elements ! index)"
    and "\<forall>old. oldFiber = Some old \<longrightarrow> old < length (heap s)"
  shows "reconcileLoop_gemini (Suc fuel) wipFiber elements index oldFiber prevSibling s =
    (let e = elements ! index;
         h0 = heap s @ [expectedFiber wipFiber (heap s) e oldFiber];
         dl = (case oldFiber of None \<Rightarrow> [] | Some old \<Rightarrow> if sameType (heap s) e old then [] else [old]);
         h1 = (case oldFiber of None \<Rightarrow> h0
               | Some old \<Rightarrow> if sameType (heap s) e old then h0
                              else h0[old := (h0 ! old)\<lparr>effectTag := Some DELETION\<rparr>]);
         oldFiber' = (case oldFiber of Some old \<Rightarrow> sibling (heap s ! old) | None \<Rightarrow> None)
     in if index = 0
        then reconcileLoop_gemini fuel wipFiber elements (Suc index) oldFiber' (Some (length (heap s)))
               (s\<lparr>deletions := deletions s @ dl,
                  heap := h1[wipFiber := (h1 ! wipFiber)\<lparr>child := Some (length (heap s))\<rparr>]\<rparr>)
        else (case prevSibling of
                None \<Rightarrow>
                  reconcileLoop_gemini fuel wipFiber elements (Suc index) oldFiber' (Some (length (heap s)))
                    (s\<lparr>deletions := deletions s @ dl, heap := h1\<rparr>)
              | Some prev \<Rightarrow>
                  reconcileLoop_gemini fuel wipFiber elements (Suc index) oldFiber' (Some (length (heap s)))
                    (s\<lparr>deletions := deletions s @ dl,
                       heap := h1[prev := (h1 ! prev)\<lparr>sibling := Some (length (heap s))\<rparr>]\<rparr>)))"
  using assms
  by (cases oldFiber)
     (auto simp: Let_def expectedFiber_def sameType_def nth_append state_upd_swap
           split: option.splits)

lemma loop_absent_gemini:
  assumes "\<not> index < length elements" "old < length (heap s)"
  shows "reconcileLoop_gemini (Suc fuel) wipFiber elements index (Some old) prevSibling s =
    (let h1 = (heap s)[old := (heap s ! old)\<lparr>effectTag := Some DELETION\<rparr>]
     in reconcileLoop_gemini fuel wipFiber elements (Suc index) (sibling (heap s ! old)) None
          (s\<lparr>deletions := deletions s @ [old],
             heap := (if index = 0 then h1[wipFiber := (h1 ! wipFiber)\<lparr>child := None\<rparr>] else h1)\<rparr>))"
  using assms
  by (auto simp: Let_def state_upd_swap split: option.splits)

lemma loop_done_gemini:
  "\<not> index < length elements \<Longrightarrow>
   reconcileLoop_gemini (Suc fuel) wipFiber elements index None prevSibling s = Some (Inr s)"
  by simp

lemma reconciled_refl:
  "\<not> i < length es \<Longrightarrow> reconciled wip es i [] prev s s"
  by (auto simp add: reconciled_def)

lemma reconcileLoop_reconciled:
  "list_all truthy es \<Longrightarrow> wip < length (heap s) \<Longrightarrow> siblingChain (heap s) old olds \<Longrightarrow>
   (0 < i \<Longrightarrow> i < length es \<Longrightarrow> \<exists>p. prev = Some p \<and> p < length (heap s) \<and> p \<notin> set olds) \<Longrightarrow>
   max (length es - i) (length olds) < fuel \<Longrightarrow>
   \<exists>s'. reconcileLoop fuel wip es i old prev s = Some (Inr s') \<and>
        reconcileLoop_gemini fuel wip es i old prev s = Some (Inr s') \<and>
        reconciled wip es i olds prev s s'"
proof (induction fuel arbitrary: i old olds prev s)
  case 0
  then show ?case by simp
next
  case (Suc fuel)
  consider (finished) "\<not> i < length es \<and> old = None"
    | (absent) od where "\<not> i < length es \<and> old = Some od"
    | (present) "i < length es"
    by (cases old) auto
  then show ?case
  proof cases
    case finished
    with Suc.prems have "olds = []" by simp
    with finished show ?thesis by (simp add: reconciled_refl)
  next
    case absent
    from absent Suc.prems obtain olds' where olds: "olds = od # olds'" and od: "od < length (heap s)"
      and ch: "siblingChain (heap s) (sibling (heap s ! od)) olds'"
      by (cases olds) auto
    define h1 where "h1 = (heap s)[od := (heap s ! od)\<lparr>effectTag := Some DELETION\<rparr>]"
    define s1 where "s1 = s\<lparr>deletions := deletions s @ [od],
                           heap := (if i = 0 then h1[wip := (h1 ! wip)\<lparr>child := None\<rparr>] else h1)\<rparr>"
    have step: "reconcileLoop (Suc fuel) wip es i old prev s = reconcileLoop fuel wip es (Suc i) (sibling (heap s ! od)) None s1"
      using absent od by (simp add: loop_absent Let_def s1_def h1_def del: reconcileLoop.simps)
    have stepG: "reconcileLoop_gemini (Suc fuel) wip es i old prev s
        = reconcileLoop_gemini fuel wip es (Suc i) (sibling (heap s ! od)) None s1"
      using absent od by (simp add: loop_absent_gemini Let_def s1_def h1_def del: reconcileLoop_gemini.simps)
    have len: "length (heap s1) = length (heap s)" by (simp add: s1_def h1_def)
    have glob: "document s1 = document s" "nextUnitOfWork s1 = nextUnitOfWork s"
      "currentRoot s1 = currentRoot s" "wipRoot s1 = wipRoot s" "deletions s1 = deletions s @ [od]"
      by (simp_all add: s1_def)
    have fld: "ftype (heap s1 ! a) = ftype (heap s ! a)" "props (heap s1 ! a) = props (heap s ! a)"
      "domNode (heap s1 ! a) = domNode (heap s ! a)" "parent (heap s1 ! a) = parent (heap s ! a)"
      "alternate (heap s1 ! a) = alternate (heap s ! a)" "sibling (heap s1 ! a) = sibling (heap s ! a)"
      "effectTag (heap s1 ! a) = (if a = od then Some DELETION else effectTag (heap s ! a))"
      "child (heap s1 ! a) = (if a = wip \<and> i = 0 then None else child (heap s ! a))" for a
      using od Suc.prems(2) by (simp_all add: s1_def h1_def nth_list_update_any)
    have ch1: "siblingChain (heap s1) (sibling (heap s ! od)) olds'"
      using siblingChain_frame [OF ch, of "heap s1"] len fld(6) by simp
    have "\<exists>s'. reconcileLoop fuel wip es (Suc i) (sibling (heap s ! od)) None s1 = Some (Inr s')
            \<and> reconcileLoop_gemini fuel wip es (Suc i) (sibling (heap s ! od)) None s1 = Some (Inr s')
            \<and> reconciled wip es (Suc i) olds' None s1 s'"
      using Suc.prems absent olds ch1 len
      by (intro Suc.IH) auto
    then obtain s' where r: "reconcileLoop fuel wip es (Suc i) (sibling (heap s ! od)) None s1 = Some (Inr s')"
      and rG: "reconcileLoop_gemini fuel wip es (Suc i) (sibling (heap s ! od)) None s1 = Some (Inr s')"
      and q: "reconciled wip es (Suc i) olds' None s1 s'" by blast
    have i0: "i = 0 \<Longrightarrow> es = []" using absent by auto
    have "reconciled wip es i olds prev s s'"
      using q absent olds i0
      unfolding reconciled_def len glob fld
      by (auto simp: unmatched_Nil)
    with r rG step stepG show ?thesis by simp
  next
    case present
    define N where "N = length (heap s)"
    define e where "e = es ! i"
    have te: "truthy e" using present Suc.prems(1) by (simp add: e_def list_all_length)
    define olds' where "olds' = tl olds"
    define old' where "old' = (case old of Some od \<Rightarrow> sibling (heap s ! od) | None \<Rightarrow> None)"
    define dl where "dl = (case old of None \<Rightarrow> [] | Some od \<Rightarrow> if sameType (heap s) e od then [] else [od])"
    define nf where "nf = expectedFiber wip (heap s) e old"
    define h1 where "h1 = (case old of None \<Rightarrow> heap s @ [nf]
               | Some od \<Rightarrow> if sameType (heap s) e od then heap s @ [nf]
                              else (heap s @ [nf])[od := ((heap s @ [nf]) ! od)\<lparr>effectTag := Some DELETION\<rparr>])"
    have oldN: "\<forall>od. old = Some od \<longrightarrow> od < length (heap s)"
      using Suc.prems(3) by (cases olds) auto
    have oldsN: "\<And>a. a \<in> set olds \<Longrightarrow> a < N"
      using Suc.prems(3) siblingChain_lt unfolding N_def by blast
    have old_hd: "old = (if olds = [] then None else Some (hd olds))"
      using Suc.prems(3) by (cases old; cases olds) auto
    have ch: "siblingChain (heap s) old' olds'"
      using Suc.prems(3) by (cases old; cases olds) (auto simp: old'_def olds'_def)
    have um: "unmatched (heap s) (drop i es) olds = dl @ unmatched (heap s) (drop (Suc i) es) olds'"
      using Suc.prems(3) present
      by (cases old; cases olds) (auto simp: dl_def olds'_def e_def Cons_nth_drop_Suc [symmetric])
    define x where "x = (if i = 0 then wip else the prev)"
    have xN: "x < N" "i \<noteq> 0 \<Longrightarrow> prev = Some x" "i \<noteq> 0 \<Longrightarrow> x \<notin> set olds"
      using Suc.prems(2,4) present by (auto simp: x_def N_def)
    define s1 where "s1 = s\<lparr>deletions := deletions s @ dl,
                           heap := (if i = 0 then h1[wip := (h1 ! wip)\<lparr>child := Some N\<rparr>]
                                    else h1[x := (h1 ! x)\<lparr>sibling := Some N\<rparr>])\<rparr>"
    have step: "reconcileLoop (Suc fuel) wip es i old prev s = reconcileLoop fuel wip es (Suc i) old' (Some N) s1"
      using present te [unfolded e_def] oldN xN(2)
      unfolding s1_def h1_def nf_def dl_def old'_def N_def e_def
      by (simp add: loop_present Let_def del: reconcileLoop.simps)
    have stepG: "reconcileLoop_gemini (Suc fuel) wip es i old prev s
        = reconcileLoop_gemini fuel wip es (Suc i) old' (Some N) s1"
      using present te [unfolded e_def] oldN xN(2)
      unfolding s1_def h1_def nf_def dl_def old'_def N_def e_def
      by (simp add: loop_present_gemini Let_def del: reconcileLoop_gemini.simps)
    have lenh1: "length h1 = Suc N"
      by (simp add: h1_def N_def split: option.splits)
    have len: "length (heap s1) = Suc N" by (simp add: s1_def lenh1)
    have glob: "document s1 = document s" "nextUnitOfWork s1 = nextUnitOfWork s"
      "currentRoot s1 = currentRoot s" "wipRoot s1 = wipRoot s" "deletions s1 = deletions s @ dl"
      by (simp_all add: s1_def)
    have h1fld: "h1 ! a = (if a < N then (heap s ! a)\<lparr>effectTag := (if a \<in> set dl then Some DELETION else effectTag (heap s ! a))\<rparr> else if a = N then nf else h1 ! a)" for a
      using oldN by (auto simp: h1_def dl_def N_def nth_append nth_list_update_any split: option.splits)
    have fld: "a < N \<Longrightarrow> ftype (heap s1 ! a) = ftype (heap s ! a)"
      "a < N \<Longrightarrow> props (heap s1 ! a) = props (heap s ! a)"
      "a < N \<Longrightarrow> domNode (heap s1 ! a) = domNode (heap s ! a)"
      "a < N \<Longrightarrow> parent (heap s1 ! a) = parent (heap s ! a)"
      "a < N \<Longrightarrow> alternate (heap s1 ! a) = alternate (heap s ! a)"
      "a < N \<Longrightarrow> sibling (heap s1 ! a) = (if a = x \<and> i \<noteq> 0 then Some N else sibling (heap s ! a))"
      "a < N \<Longrightarrow> effectTag (heap s1 ! a) = (if a \<in> set dl then Some DELETION else effectTag (heap s ! a))"
      "a < N \<Longrightarrow> child (heap s1 ! a) = (if a = wip \<and> i = 0 then Some N else child (heap s ! a))" for a
      using xN(1) Suc.prems(2) lenh1 h1fld [of a]
      by (auto simp: s1_def nth_list_update_any N_def)
    have newN: "heap s1 ! N = nf"
      using xN(1) Suc.prems(2) lenh1 h1fld [of N]
      by (auto simp: s1_def nth_list_update_any N_def)
    have ch1: "siblingChain (heap s1) old' olds'"
    proof (rule siblingChain_frame [OF ch])
      show "length (heap s) \<le> length (heap s1)" using len by (simp add: N_def)
      fix a assume "a \<in> set olds'"
      then have "a \<in> set olds" by (cases olds) (auto simp: olds'_def)
      then show "sibling (heap s1 ! a) = sibling (heap s ! a)"
        using oldsN [of a] xN(3) fld(6) [of a] by auto
    qed
    have "\<exists>s'. reconcileLoop fuel wip es (Suc i) old' (Some N) s1 = Some (Inr s')
            \<and> reconcileLoop_gemini fuel wip es (Suc i) old' (Some N) s1 = Some (Inr s')
            \<and> reconciled wip es (Suc i) olds' (Some N) s1 s'"
    proof (rule Suc.IH)
      show "list_all truthy es" by fact
      show "wip < length (heap s1)" using Suc.prems(2) len by (simp add: N_def)
      show "siblingChain (heap s1) old' olds'" by fact
      show "\<exists>p. Some N = Some p \<and> p < length (heap s1) \<and> p \<notin> set olds'"
        using len oldsN by (cases olds) (auto simp: olds'_def)
      show "max (length es - Suc i) (length olds') < fuel"
        using Suc.prems(5) present by (cases olds) (auto simp: olds'_def)
    qed
    then obtain s' where r: "reconcileLoop fuel wip es (Suc i) old' (Some N) s1 = Some (Inr s')"
      and rG: "reconcileLoop_gemini fuel wip es (Suc i) old' (Some N) s1 = Some (Inr s')"
      and q: "reconciled wip es (Suc i) olds' (Some N) s1 s'" by blast
    have olds'N: "\<And>a. a \<in> set olds' \<Longrightarrow> a < N"
      using oldsN by (cases olds) (auto simp: olds'_def)
    have um1: "unmatched (heap s1) (drop (Suc i) es) olds' = unmatched (heap s) (drop (Suc i) es) olds'"
      by (rule unmatched_frame) (simp add: fld(1) olds'N)
    have dl_sub: "set dl \<subseteq> set olds" "set (unmatched (heap s) (drop (Suc i) es) olds') \<subseteq> set olds"
      using old_hd unmatched_subset [of "heap s" "drop (Suc i) es" olds']
      by (cases olds; auto simp: dl_def olds'_def split: option.splits if_splits)+
    have q1: "length (heap s') = Suc N + (length es - Suc i)"
      and q2: "document s' = document s" "nextUnitOfWork s' = nextUnitOfWork s"
         "currentRoot s' = currentRoot s" "wipRoot s' = wipRoot s"
      and q3: "deletions s' = deletions s @ dl @ unmatched (heap s) (drop (Suc i) es) olds'"
      using q unfolding reconciled_def len glob um1 by simp_all
    have q4: "ftype (heap s' ! a) = ftype (heap s1 ! a)" "props (heap s' ! a) = props (heap s1 ! a)"
        "domNode (heap s' ! a) = domNode (heap s1 ! a)" "parent (heap s' ! a) = parent (heap s1 ! a)"
        "alternate (heap s' ! a) = alternate (heap s1 ! a)"
        "effectTag (heap s' ! a) = (if a \<in> set (unmatched (heap s) (drop (Suc i) es) olds') then Some DELETION
           else effectTag (heap s1 ! a))"
        "sibling (heap s' ! a) = (if a = N \<and> Suc i < length es then Some (Suc N) else sibling (heap s1 ! a))"
        "child (heap s' ! a) = child (heap s1 ! a)"
      if "a < Suc N" for a
      using q that unfolding reconciled_def len glob um1 by auto
    have q5: "heap s' ! (Suc N + k) =
          (expectedFiber wip (heap s1) (es ! (Suc i + k)) (if k < length olds' then Some (olds' ! k) else None))
            \<lparr>sibling := (if Suc i + k + 1 < length es then Some (Suc N + k + 1) else None)\<rparr>"
      if "k < length es - Suc i" for k
      using q that unfolding reconciled_def len glob um1 by auto
    have p1: "length (heap s') = length (heap s) + (length es - i)"
      using q1 present by (simp add: N_def)
    have p3: "deletions s' = deletions s @ unmatched (heap s) (drop i es) olds"
      using q3 um by simp
    have p4: "ftype (heap s' ! a) = ftype (heap s ! a) \<and> props (heap s' ! a) = props (heap s ! a) \<and>
        domNode (heap s' ! a) = domNode (heap s ! a) \<and> parent (heap s' ! a) = parent (heap s ! a) \<and>
        alternate (heap s' ! a) = alternate (heap s ! a) \<and>
        effectTag (heap s' ! a) =
          (if a \<in> set (unmatched (heap s) (drop i es) olds) then Some DELETION
           else effectTag (heap s ! a)) \<and>
        sibling (heap s' ! a) =
          (if prev = Some a \<and> 0 < i \<and> i < length es then Some (length (heap s))
           else sibling (heap s ! a)) \<and>
        child (heap s' ! a) =
          (if a = wip \<and> i = 0 \<and> (es \<noteq> [] \<or> olds \<noteq> [])
           then (if es = [] then None else Some (length (heap s)))
           else child (heap s ! a))"
      if "a < length (heap s)" for a
    proof -
      have a: "a < N" "a < Suc N" using that by (simp_all add: N_def)
      show ?thesis
        using q4 [OF a(2)] fld [OF a(1)] a(1) present xN(2) um
        by (auto simp: N_def)
    qed
    have p5: "heap s' ! (length (heap s) + k) =
          (expectedFiber wip (heap s) (es ! (i + k)) (if k < length olds then Some (olds ! k) else None))
            \<lparr>sibling := (if i + k + 1 < length es then Some (length (heap s) + k + 1) else None)\<rparr>"
      if "k < length es - i" for k
    proof (cases k)
      case 0
      have nfe: "nf = expectedFiber wip (heap s) (es ! i) (if 0 < length olds then Some (olds ! 0) else None)"
        using old_hd by (cases olds) (auto simp: nf_def e_def)
      have notin: "N \<notin> set (unmatched (heap s) (drop (Suc i) es) olds')"
        using dl_sub(2) oldsN by auto
      have nfc: "child nf = None" "sibling nf = None"
        by (auto simp: nf_def expectedFiber_def split: option.splits)
      have "heap s' ! N = nf\<lparr>sibling := (if Suc i < length es then Some (Suc N) else None)\<rparr>"
        using q4 [of N] newN notin nfc
        by (intro fiber.equality) auto
      then show ?thesis using 0 nfe by (simp add: N_def)
    next
      case (Suc k')
      have k': "k' < length es - Suc i" using that Suc by simp
      have "expectedFiber wip (heap s1) (es ! (Suc i + k')) (if k' < length olds' then Some (olds' ! k') else None)
          = expectedFiber wip (heap s) (es ! (Suc i + k')) (if k' < length olds' then Some (olds' ! k') else None)"
        by (rule expectedFiber_frame) (auto simp: fld olds'N split: if_splits)
      moreover have "(if k' < length olds' then Some (olds' ! k') else None) = (if k < length olds then Some (olds ! k) else None)"
        using Suc by (cases olds) (auto simp: olds'_def)
      ultimately show ?thesis
        using q5 [OF k'] Suc by (simp add: N_def)
    qed
    have "reconciled wip es i olds prev s s'"
      unfolding reconciled_def
      using p1 q2 p3 p4 p5 by blast
    with r rG step stepG show ?thesis by simp
  qed
qed

lemma unmatched_positions:
  "unmatched h es olds =
     map ((!) olds) (filter (\<lambda>i. \<not> (i < length es \<and> sameType h (es ! i) (olds ! i))) [0..<length olds])"
proof (induction h es olds rule: unmatched.induct)
  case (1 h es)
  then show ?case by simp
next
  case (2 h old olds)
  have "[0..<Suc (length olds)] = 0 # map Suc [0..<length olds]"
    by (simp add: upt_conv_Cons map_Suc_upt del: upt_Suc)
  with 2 show ?case by (simp add: filter_map comp_def del: upt_Suc)
next
  case (3 h e es old olds)
  have "[0..<Suc (length olds)] = 0 # map Suc [0..<length olds]"
    by (simp add: upt_conv_Cons map_Suc_upt del: upt_Suc)
  with 3 show ?case by (simp add: filter_map comp_def del: upt_Suc)
qed

text \<open>
  C1.  Let the new children all be present and let \<open>olds\<close> be the old child fibers of the
  parent.  Reconciliation returns, in both variants and with the same state.  It
  allocates one fiber per new child, in order, linked as siblings under the parent.  At a
  position where an old fiber exists with the kind of the new child, the fiber has the
  update disposition, the presentation handle of the old fiber, the attributes of the new
  child and the old fiber as predecessor; at any other position of a new child it has
  the insert disposition, no handle and no predecessor.  Every old fiber whose position
  has no new child of its kind is itself marked for deletion and appended to the
  deletions, in order; the fibers of the new tree are the newly allocated ones only.
\<close>

theorem reconcileChildren_dispositions:
  assumes "list_all truthy elements" and "wipFiber < length (heap s)"
    and "siblingChain (heap s)
           (case alternate (heap s ! wipFiber) of None \<Rightarrow> None | Some alt \<Rightarrow> child (heap s ! alt)) olds"
    and "max (length elements) (length olds) < fuel"
  shows "\<exists>s'. reconcileChildren fuel wipFiber elements s = Some (Inr s') \<and>
      reconcileChildren_gemini fuel wipFiber elements s = Some (Inr s') \<and>
      length (heap s') = length (heap s) + length elements \<and>
      (\<forall>i < length elements.
         heap s' ! (length (heap s) + i) =
           (expectedFiber wipFiber (heap s) (elements ! i) (if i < length olds then Some (olds ! i) else None))
             \<lparr>sibling := (if i + 1 < length elements then Some (length (heap s) + i + 1) else None)\<rparr>) \<and>
      deletions s' = deletions s @
         map ((!) olds)
           (filter (\<lambda>i. \<not> (i < length elements \<and> sameType (heap s) (elements ! i) (olds ! i)))
              [0..<length olds]) \<and>
      (\<forall>i < length olds.
         \<not> (i < length elements \<and> sameType (heap s) (elements ! i) (olds ! i)) \<longrightarrow>
         effectTag (heap s' ! (olds ! i)) = Some DELETION) \<and>
      (elements \<noteq> [] \<or> olds \<noteq> [] \<longrightarrow>
         child (heap s' ! wipFiber) = (if elements = [] then None else Some (length (heap s))))"
proof -
  let ?old = "case alternate (heap s ! wipFiber) of None \<Rightarrow> None | Some alt \<Rightarrow> child (heap s ! alt)"
  have "\<exists>s'. reconcileLoop fuel wipFiber elements 0 ?old None s = Some (Inr s') \<and>
        reconcileLoop_gemini fuel wipFiber elements 0 ?old None s = Some (Inr s') \<and>
        reconciled wipFiber elements 0 olds None s s'"
    using assms by (intro reconcileLoop_reconciled) auto
  then obtain s' where r: "reconcileLoop fuel wipFiber elements 0 ?old None s = Some (Inr s')"
    and rG: "reconcileLoop_gemini fuel wipFiber elements 0 ?old None s = Some (Inr s')"
    and q: "reconciled wipFiber elements 0 olds None s s'" by blast
  have oldsN: "\<And>a. a \<in> set olds \<Longrightarrow> a < length (heap s)"
    using assms(3) siblingChain_lt by blast
  have del: "effectTag (heap s' ! (olds ! i)) = Some DELETION"
    if "i < length olds" "\<not> (i < length elements \<and> sameType (heap s) (elements ! i) (olds ! i))" for i
  proof -
    have "olds ! i \<in> set (unmatched (heap s) elements olds)"
      using that unfolding unmatched_positions by auto
    moreover have "olds ! i < length (heap s)" using oldsN that(1) by simp
    ultimately show ?thesis using q unfolding reconciled_def by simp
  qed
  have "length (heap s') = length (heap s) + length elements"
    using q unfolding reconciled_def by simp
  moreover have "\<forall>i < length elements.
         heap s' ! (length (heap s) + i) =
           (expectedFiber wipFiber (heap s) (elements ! i) (if i < length olds then Some (olds ! i) else None))
             \<lparr>sibling := (if i + 1 < length elements then Some (length (heap s) + i + 1) else None)\<rparr>"
    using q unfolding reconciled_def by simp
  moreover have "deletions s' = deletions s @
         map ((!) olds)
           (filter (\<lambda>i. \<not> (i < length elements \<and> sameType (heap s) (elements ! i) (olds ! i)))
              [0..<length olds])"
    using q unfolding reconciled_def unmatched_positions by simp
  moreover have "elements \<noteq> [] \<or> olds \<noteq> [] \<longrightarrow>
         child (heap s' ! wipFiber) = (if elements = [] then None else Some (length (heap s)))"
    using q assms(2) unfolding reconciled_def by simp
  ultimately show ?thesis
    using r rG del by (auto simp: reconcileChildren_def reconcileChildren_gemini_def)
qed


theorem reconcileChildren_dispositions_witness:
  "\<exists>s'. reconcileChildren 5 9 (childrenOf listChanged) secondPassState = Some (Inr s') \<and>
     reconcileChildren_gemini 5 9 (childrenOf listChanged) secondPassState = Some (Inr s') \<and>
     length (heap s') = 12 \<and>
     effectTag (heap s' ! 10) = Some UPDATE \<and> alternate (heap s' ! 10) = Some 2 \<and>
     effectTag (heap s' ! 11) = Some PLACEMENT \<and> alternate (heap s' ! 11) = None \<and>
     deletions s' = [3, 4] \<and>
     effectTag (heap s' ! 3) = Some DELETION \<and> effectTag (heap s' ! 4) = Some DELETION"
proof -
  let ?s = secondPassState
  let ?es = "childrenOf listChanged"
  let ?olds = "[2, 3, 4 :: nat]"
  have a1: "list_all truthy ?es" by code_simp
  have a2: "9 < length (heap ?s)" by code_simp
  have a3: "siblingChain (heap ?s)
      (case alternate (heap ?s ! 9) of None \<Rightarrow> None | Some alt \<Rightarrow> child (heap ?s ! alt)) ?olds"
    by code_simp
  have a4: "max (length ?es) (length ?olds) < 5" by code_simp
  have len: "length (heap ?s) = 10" "length ?es = 2" by code_simp+
  have f0: "(expectedFiber 9 (heap ?s) (?es ! 0) (if 0 < length ?olds then Some (?olds ! 0) else None))
       \<lparr>sibling := (if 0 + 1 < length ?es then Some (length (heap ?s) + 0 + 1) else None)\<rparr>
     = \<lparr>ftype = Some ''li'', props = elementProps (listItem ''1''), domNode = Some 2, parent = Some 9,
        child = None, sibling = Some 11, alternate = Some 2, effectTag = Some UPDATE\<rparr>"
    by code_simp
  have f1: "(expectedFiber 9 (heap ?s) (?es ! 1) (if 1 < length ?olds then Some (?olds ! 1) else None))
       \<lparr>sibling := (if 1 + 1 < length ?es then Some (length (heap ?s) + 1 + 1) else None)\<rparr>
     = \<lparr>ftype = Some ''p'', props = Some \<lparr>attrs = [], children = []\<rparr>, domNode = None, parent = Some 9,
        child = None, sibling = None, alternate = None, effectTag = Some PLACEMENT\<rparr>"
    by code_simp
  have dl: "deletions ?s @ map ((!) ?olds)
       (filter (\<lambda>i. \<not> (i < length ?es \<and> sameType (heap ?s) (?es ! i) (?olds ! i))) [0..<length ?olds])
     = [3, 4]"
    by code_simp
  have m1: "\<not> (1 < length ?es \<and> sameType (heap ?s) (?es ! 1) (?olds ! 1))" by code_simp
  have m2: "\<not> (2 < length ?es \<and> sameType (heap ?s) (?es ! 2) (?olds ! 2))" by code_simp
  from reconcileChildren_dispositions [OF a1 a2 a3 a4]
  obtain s' where r: "reconcileChildren 5 9 ?es ?s = Some (Inr s')"
    "reconcileChildren_gemini 5 9 ?es ?s = Some (Inr s')"
    "length (heap s') = length (heap ?s) + length ?es"
    and nf: "\<forall>i < length ?es. heap s' ! (length (heap ?s) + i) =
           (expectedFiber 9 (heap ?s) (?es ! i) (if i < length ?olds then Some (?olds ! i) else None))
             \<lparr>sibling := (if i + 1 < length ?es then Some (length (heap ?s) + i + 1) else None)\<rparr>"
    and d: "deletions s' = deletions ?s @ map ((!) ?olds)
       (filter (\<lambda>i. \<not> (i < length ?es \<and> sameType (heap ?s) (?es ! i) (?olds ! i))) [0..<length ?olds])"
    and mk: "\<forall>i < length ?olds.
         \<not> (i < length ?es \<and> sameType (heap ?s) (?es ! i) (?olds ! i)) \<longrightarrow>
         effectTag (heap s' ! (?olds ! i)) = Some DELETION"
    by blast
  have n0: "heap s' ! 10 = \<lparr>ftype = Some ''li'', props = elementProps (listItem ''1''), domNode = Some 2,
        parent = Some 9, child = None, sibling = Some 11, alternate = Some 2, effectTag = Some UPDATE\<rparr>"
    using nf [rule_format, of 0] f0 len by simp
  have n1: "heap s' ! 11 = \<lparr>ftype = Some ''p'', props = Some \<lparr>attrs = [], children = []\<rparr>, domNode = None,
        parent = Some 9, child = None, sibling = None, alternate = None, effectTag = Some PLACEMENT\<rparr>"
    using nf [rule_format, of 1] f1 len by simp
  have k1: "effectTag (heap s' ! 3) = Some DELETION" using mk [rule_format, of 1] m1 by simp
  have k2: "effectTag (heap s' ! 4) = Some DELETION" using mk [rule_format, of 2] m2 by simp
  show ?thesis
    using r n0 n1 k1 k2 d dl len by simp
qed

text \<open>
  C10 fails on the reconciling variant.  Its builder keeps a \<open>null\<close> child, the iteration
  for it produces no fiber, and the iteration for the child that follows assigns to the
  \<open>sibling\<close> field of \<open>null\<close>.
\<close>

theorem workLoop_null_child_TypeError:
  "childrenOf treeWithNullChild = [Val JNull, Elem ''TEXT_ELEMENT'' [(''nodeValue'', JStr ''x'')] []]
   \<and> workLoop 5 2 (render treeWithNullChild 0 initialState) = Some (Inl TypeError)"
  by code_simp

section \<open>Commit\<close>


lemma bind_res_cong:
  "(\<And>x. m = Some (Inr x) \<Longrightarrow> f x = g x) \<Longrightarrow> bind_res m f = bind_res m g"
  by (auto simp: bind_res_def split: option.splits sum.splits)

lemma bind_res_assoc:
  "bind_res (bind_res m f) g = bind_res m (\<lambda>x. bind_res (f x) g)"
  by (auto simp: bind_res_def split: option.splits sum.splits)

lemma bind_res_return [simp]: "bind_res (Some (Inr x)) f = f x"
  by (simp add: bind_res_def)


























section \<open>Deletions\<close>

lemma commitDeletion_gemini_guard:
  "domNode (h ! fiber) = Some dom0 \<Longrightarrow> \<not> contains d domParent dom0 \<Longrightarrow>
   commitDeletion_gemini (Suc fuel) h d fiber domParent = Some (Inr d)"
  by simp

lemma commitDeletion_unguarded:
  "domNode (h ! fiber) = Some dom0 \<Longrightarrow> dom0 \<notin> set (childNodes (d ! domParent)) \<Longrightarrow>
   commitDeletion (Suc fuel) h d fiber domParent = Some (Inl NotFoundError)"
  by (simp add: removeChild_def)

lemma gemini_two_deletions:
  "map_option (map_sum id (\<lambda>s. (deletions s, childNodes (document s ! 1))))
     (bind_res (render_gemini 20 listOfThree_gemini 0 initialState) (render_gemini 20 listOfOne_gemini 0))
   = Some (Inr ([3, 4], [2]))"
  by code_simp

text \<open>
  C7 fails on the reconciling variant, whose \<open>commitDeletion\<close> removes without a check.
  With two adjacent items deleted in one pass, the walk that starts at the first deleted
  fiber reaches its sibling and removes the node of the second; the turn of the second in
  the deletions then removes a node that is no longer a child, and the commit throws.
\<close>

theorem commit_two_deletions_NotFoundError:
  "bind_res (workLoop 20 8 (render listOfThree 0 initialState))
     (\<lambda>s. performUnits 20 20 (render listOfOne 0 s))
   = Some (Inr (projr (the (bind_res (workLoop 20 8 (render listOfThree 0 initialState))
                              (\<lambda>s. performUnits 20 20 (render listOfOne 0 s))))))
   \<and> deletions (projr (the (bind_res (workLoop 20 8 (render listOfThree 0 initialState))
                              (\<lambda>s. performUnits 20 20 (render listOfOne 0 s))))) = [3, 4]
   \<and> bind_res (workLoop 20 8 (render listOfThree 0 initialState))
       (\<lambda>s. workLoop 20 8 (render listOfOne 0 s))
     = Some (Inl NotFoundError)"
  by code_simp

section \<open>The work loop after a commit\<close>






section \<open>A whole render pass\<close>

lemma descendants_children:
  "sum_list (map (\<lambda>c. Suc (descendants c)) cs) = length cs + sum_list (map descendants cs)"
  by (induction cs) auto

lemma wellFormed_truthy: "wellFormed e \<Longrightarrow> truthy e"
  by (cases e) auto

lemma builtTree_fiberFor:
  "builtTree m h x p e lo \<Longrightarrow> fiberFor m h x p e \<and> domNode (h ! x) \<noteq> None"
  by (cases e) auto

lemma builtChildren_chain:
  "builtChildren m h c p es r d \<Longrightarrow>
   siblingChain h c [r ..< r + length es] \<and>
   (\<forall>j < length es. fiberFor m h (r + j) p (es ! j) \<and> domNode (h ! (r + j)) \<noteq> None)"
proof (induction es arbitrary: c r d)
  case Nil
  then show ?case by simp
next
  case (Cons e es)
  from Cons.prems have c: "c = Some r" and t: "builtTree m h r p e d"
    and rest: "builtChildren m h (sibling (h ! r)) p es (Suc r) (d + descendants e)"
    by simp_all
  note ih = Cons.IH [OF rest]
  have f: "fiberFor m h r p e" "domNode (h ! r) \<noteq> None" using builtTree_fiberFor [OF t] by simp_all
  have "[r ..< r + Suc (length es)] = r # [Suc r ..< r + Suc (length es)]"
    by (rule upt_conv_Cons) simp
  then have u: "[r ..< r + length (e # es)] = r # [Suc r ..< Suc r + length es]"
    by simp
  have "siblingChain h c [r ..< r + length (e # es)]"
    unfolding u using c f(1) ih by (simp add: fiberFor_def)
  moreover have "fiberFor m h (r + j) p ((e # es) ! j) \<and> domNode (h ! (r + j)) \<noteq> None"
    if "j < length (e # es)" for j
    using that f ih by (cases j) auto
  ultimately show ?case by blast
qed

lemma unmatched_all_same:
  "length olds = length es \<Longrightarrow> (\<forall>j < length es. sameType h (es ! j) (olds ! j)) \<Longrightarrow>
   unmatched h es olds = []"
proof (induction h es olds rule: unmatched.induct)
  case (1 h es)
  then show ?case by simp
next
  case (2 h old olds)
  then show ?case by simp
next
  case (3 h e es old olds)
  from "3.prems"(2) have "sameType h e old" by auto
  moreover from "3.prems"(2) have "\<forall>j < length es. sameType h (es ! j) (olds ! j)" by auto
  ultimately show ?case using 3 by simp
qed

lemma reconcile_children:
  assumes wf: "list_all wellFormed cs"
    and a: "a < length (heap s)"
    and fuel: "length cs < fuel"
    and alt: "case m of
        None \<Rightarrow> alternate (heap s ! a) = None
      | Some shift \<Rightarrow>
          alternate (heap s ! a) = Some (a - shift) \<and> shift \<le> length (heap s) \<and>
          (\<exists>po dold. builtChildren mo (heap s) (child (heap s ! (a - shift))) po cs
             (length (heap s) - shift) dold)"
  shows "\<exists>s'. reconcileChildren fuel a cs s = Some (Inr s') \<and>
      length (heap s') = length (heap s) + length cs \<and>
      document s' = document s \<and> nextUnitOfWork s' = nextUnitOfWork s \<and>
      currentRoot s' = currentRoot s \<and> wipRoot s' = wipRoot s \<and> deletions s' = deletions s \<and>
      (\<forall>b < length (heap s). b \<noteq> a \<longrightarrow> heap s' ! b = heap s ! b) \<and>
      heap s' ! a = (heap s ! a)\<lparr>child := (if cs = [] then child (heap s ! a) else Some (length (heap s)))\<rparr> \<and>
      (\<forall>j < length cs.
         fiberFor m (heap s') (length (heap s) + j) a (cs ! j) \<and>
         child (heap s' ! (length (heap s) + j)) = None \<and>
         sibling (heap s' ! (length (heap s) + j)) =
           (if j + 1 < length cs then Some (length (heap s) + j + 1) else None) \<and>
         domNode (heap s' ! (length (heap s) + j)) =
           (case m of None \<Rightarrow> None | Some shift \<Rightarrow> domNode (heap s ! (length (heap s) + j - shift))))"
proof -
  define L where "L = length (heap s)"
  define olds where "olds = (case m of None \<Rightarrow> [] | Some shift \<Rightarrow> [L - shift ..< L - shift + length cs])"
  let ?old = "case alternate (heap s ! a) of None \<Rightarrow> None | Some alt \<Rightarrow> child (heap s ! alt)"
  have tr: "list_all truthy cs"
    using wf by (auto simp: list_all_iff wellFormed_truthy)
  have ch: "siblingChain (heap s) ?old olds"
    using alt builtChildren_chain unfolding olds_def L_def
    by (cases m) fastforce+
  have oldf: "\<exists>po. \<forall>j < length cs. fiberFor mo (heap s) (L - shift + j) po (cs ! j)"
    if "m = Some shift" for shift
  proof -
    from alt that obtain po dold
      where "builtChildren mo (heap s) (child (heap s ! (a - shift))) po cs (L - shift) dold"
      by (auto simp: L_def)
    from builtChildren_chain [OF this] show ?thesis by blast
  qed
  have same: "sameType (heap s) (cs ! j) (olds ! j)" if "m = Some shift" "j < length cs" for shift j
    using oldf [OF that(1)] that tr
    by (auto simp: sameType_def olds_def fiberFor_def list_all_length)
  have um: "unmatched (heap s) cs olds = []"
  proof (cases m)
    case None
    then show ?thesis by (simp add: olds_def)
  next
    case (Some shift)
    then show ?thesis using same by (intro unmatched_all_same) (auto simp: olds_def)
  qed
  have lo: "length olds \<le> length cs" by (cases m) (auto simp: olds_def)
  have "\<exists>s'. reconcileLoop fuel a cs 0 ?old None s = Some (Inr s') \<and>
        reconcileLoop_gemini fuel a cs 0 ?old None s = Some (Inr s') \<and>
        reconciled a cs 0 olds None s s'"
    using tr a ch fuel lo by (intro reconcileLoop_reconciled) auto
  then obtain s' where r: "reconcileChildren fuel a cs s = Some (Inr s')"
    and q: "reconciled a cs 0 olds None s s'"
    by (auto simp: reconcileChildren_def)
  have q1: "length (heap s') = L + length cs" "document s' = document s"
    "nextUnitOfWork s' = nextUnitOfWork s" "currentRoot s' = currentRoot s"
    "wipRoot s' = wipRoot s" "deletions s' = deletions s"
    using q um unfolding reconciled_def L_def by simp_all
  have q2: "ftype (heap s' ! b) = ftype (heap s ! b)" "props (heap s' ! b) = props (heap s ! b)"
    "domNode (heap s' ! b) = domNode (heap s ! b)" "parent (heap s' ! b) = parent (heap s ! b)"
    "alternate (heap s' ! b) = alternate (heap s ! b)" "effectTag (heap s' ! b) = effectTag (heap s ! b)"
    "sibling (heap s' ! b) = sibling (heap s ! b)"
    "child (heap s' ! b) = (if b = a \<and> (cs \<noteq> [] \<or> olds \<noteq> []) then (if cs = [] then None else Some L)
        else child (heap s ! b))"
    if "b < L" for b
    using q um that unfolding reconciled_def L_def by simp_all
  have q3: "heap s' ! (L + j) =
      (expectedFiber a (heap s) (cs ! j) (if j < length olds then Some (olds ! j) else None))
        \<lparr>sibling := (if j + 1 < length cs then Some (L + j + 1) else None)\<rparr>"
    if "j < length cs" for j
    using q that unfolding reconciled_def L_def by simp
  have olds_nil: "cs = [] \<Longrightarrow> olds = []" using lo by simp
  have fr: "heap s' ! b = heap s ! b" if "b < L" "b \<noteq> a" for b
    using q2 [OF that(1)] that(2) by (intro fiber.equality) simp_all
  have fa: "heap s' ! a = (heap s ! a)\<lparr>child := (if cs = [] then child (heap s ! a) else Some L)\<rparr>"
    using q2 [of a] a olds_nil unfolding L_def by (intro fiber.equality) auto
  have new: "fiberFor m (heap s') (L + j) a (cs ! j) \<and>
         child (heap s' ! (L + j)) = None \<and>
         sibling (heap s' ! (L + j)) = (if j + 1 < length cs then Some (L + j + 1) else None) \<and>
         domNode (heap s' ! (L + j)) =
           (case m of None \<Rightarrow> None | Some shift \<Rightarrow> domNode (heap s ! (L + j - shift)))"
    if j: "j < length cs" for j
  proof (cases m)
    case None
    then show ?thesis
      using q3 [OF j] q1(1) j by (simp add: olds_def expectedFiber_def fiberFor_def)
  next
    case (Some shift)
    have sh: "shift \<le> L" using alt Some by (simp add: L_def)
    have oj: "olds ! j = L - shift + j" "j < length olds" using Some j by (simp_all add: olds_def)
    have st: "sameType (heap s) (cs ! j) (L - shift + j)" using same [OF Some j] oj by simp
    have ft: "ftype (heap s ! (L - shift + j)) = elementType (cs ! j)"
      using st by (simp add: sameType_def)
    show ?thesis
      using q3 [OF j] q1(1) j oj st ft Some sh
      by (simp add: expectedFiber_def fiberFor_def)
  qed
  show ?thesis
    using r q1 fr fa new unfolding L_def by blast
qed

lemma builtTree_frame:
  "builtTree m h x p e lo \<Longrightarrow> length h \<le> length h' \<Longrightarrow> h' ! x = h ! x \<Longrightarrow>
   (\<And>b. lo \<le> b \<Longrightarrow> b < lo + descendants e \<Longrightarrow> h' ! b = h ! b) \<Longrightarrow>
   builtTree m h' x p e lo"
  and builtChildren_frame:
  "builtChildren m h c p es r d \<Longrightarrow> length h \<le> length h' \<Longrightarrow>
   (\<And>b. r \<le> b \<Longrightarrow> b < r + length es \<Longrightarrow> h' ! b = h ! b) \<Longrightarrow>
   (\<And>b. d \<le> b \<Longrightarrow> b < d + sum_list (map descendants es) \<Longrightarrow> h' ! b = h ! b) \<Longrightarrow>
   builtChildren m h' c p es r d"
proof (induction m h x p e lo and m h c p es r d rule: builtTree_builtChildren.induct)
  case (1 m h x p t kvs cs lo)
  have "builtChildren m h' (child (h ! x)) x cs lo (lo + length cs)"
  proof (rule 1(1))
    show "builtChildren m h (child (h ! x)) x cs lo (lo + length cs)" using 1(2) by simp
    show "length h \<le> length h'" by fact
    show "h' ! b = h ! b" if "lo \<le> b" "b < lo + length cs" for b
      using that 1(5) [of b] by (simp add: descendants_children)
    show "h' ! b = h ! b" if "lo + length cs \<le> b" "b < lo + length cs + sum_list (map descendants cs)" for b
      using that 1(5) [of b] by (simp add: descendants_children)
  qed
  then show ?case using 1(2,3,4) by (auto simp: fiberFor_def split: option.splits)
next
  case (2 m h x p v lo)
  then show ?case by simp
next
  case (3 m h x p xs lo)
  then show ?case by simp
next
  case (4 m h c p r d)
  then show ?case by simp
next
  case (5 m h c p e es r d)
  have t: "builtTree m h' r p e d"
  proof (rule 5(1))
    show "builtTree m h r p e d" using 5(3) by simp
    show "length h \<le> length h'" by fact
    show "h' ! r = h ! r" using 5(5) [of r] by simp
    show "h' ! b = h ! b" if "d \<le> b" "b < d + descendants e" for b
      using that 5(6) [of b] by simp
  qed
  have c: "builtChildren m h' (sibling (h ! r)) p es (Suc r) (d + descendants e)"
  proof (rule 5(2))
    show "builtChildren m h (sibling (h ! r)) p es (Suc r) (d + descendants e)" using 5(3) by simp
    show "length h \<le> length h'" by fact
    show "h' ! b = h ! b" if "Suc r \<le> b" "b < Suc r + length es" for b
      using that 5(5) [of b] by simp
    show "h' ! b = h ! b" if "d + descendants e \<le> b" "b < d + descendants e + sum_list (map descendants es)" for b
      using that 5(6) [of b] by simp
  qed
  have "h' ! r = h ! r" using 5(5) [of r] by simp
  then show ?case using t c 5(3) by simp
qed

lemma parentPath_frame:
  "parentPath h a path \<Longrightarrow> (\<And>x. x \<in> set path \<Longrightarrow> parent (h' ! x) = parent (h ! x)) \<Longrightarrow>
   parentPath h' a path"
  by (induction h a path rule: parentPath.induct) auto

lemma nextAbove_frame:
  "(\<And>x. x \<in> set path \<Longrightarrow> sibling (h' ! x) = sibling (h ! x)) \<Longrightarrow> nextAbove h' path = nextAbove h path"
proof (induction path)
  case Nil
  then show ?case by (simp add: nextAbove_def)
next
  case (Cons x path)
  then have "nextAbove h' path = nextAbove h path" by simp
  moreover have "sibling (h' ! x) = sibling (h ! x)" using Cons.prems by simp
  ultimately show ?case by (simp add: nextAbove_def)
qed

lemma nextAbove_Cons:
  "nextAbove h (x # path) = (case sibling (h ! x) of None \<Rightarrow> nextAbove h path | Some y \<Rightarrow> Some y)"
  by (auto simp: nextAbove_def)

lemma createDom_Some:
  "props f = Some pr \<Longrightarrow> \<exists>d. createDom doc f = Inr (d, length doc)"
  by (auto simp: createDom_def updateDomProps_def createTextNode_def createElementNode_def Let_def)

lemma perform_unit:
  assumes wf: "list_all wellFormed cs"
    and a: "a < length (heap s)"
    and pr: "props (heap s ! a) = Some \<lparr>attrs = kvs, children = cs\<rparr>"
    and ch: "child (heap s ! a) = None"
    and fuel: "length cs < fuel" "length path < fuel"
    and path: "parentPath (heap s) a path" "\<forall>x \<in> set path. x < length (heap s)"
    and alt: "case m of
        None \<Rightarrow> alternate (heap s ! a) = None
      | Some shift \<Rightarrow>
          alternate (heap s ! a) = Some (a - shift) \<and> shift \<le> length (heap s) \<and>
          (\<exists>po dold. builtChildren mo (heap s) (child (heap s ! (a - shift))) po cs
             (length (heap s) - shift) dold)"
    and dn: "m \<noteq> None \<longrightarrow> domNode (heap s ! a) \<noteq> None"
  shows "\<exists>s1. performUnitOfWork fuel a s =
        Some (Inr (s1, if cs = [] then nextAbove (heap s) path else Some (length (heap s)))) \<and>
      length (heap s1) = length (heap s) + length cs \<and>
      currentRoot s1 = currentRoot s \<and> wipRoot s1 = wipRoot s \<and> deletions s1 = deletions s \<and>
      (m \<noteq> None \<longrightarrow> document s1 = document s) \<and>
      (\<forall>b < length (heap s). b \<noteq> a \<longrightarrow> heap s1 ! b = heap s ! b) \<and>
      ftype (heap s1 ! a) = ftype (heap s ! a) \<and> props (heap s1 ! a) = props (heap s ! a) \<and>
      parent (heap s1 ! a) = parent (heap s ! a) \<and> sibling (heap s1 ! a) = sibling (heap s ! a) \<and>
      alternate (heap s1 ! a) = alternate (heap s ! a) \<and> effectTag (heap s1 ! a) = effectTag (heap s ! a) \<and>
      domNode (heap s1 ! a) \<noteq> None \<and>
      child (heap s1 ! a) = (if cs = [] then None else Some (length (heap s))) \<and>
      (\<forall>j < length cs.
         fiberFor m (heap s1) (length (heap s) + j) a (cs ! j) \<and>
         child (heap s1 ! (length (heap s) + j)) = None \<and>
         sibling (heap s1 ! (length (heap s) + j)) =
           (if j + 1 < length cs then Some (length (heap s) + j + 1) else None) \<and>
         (m \<noteq> None \<longrightarrow> domNode (heap s1 ! (length (heap s) + j)) \<noteq> None)) \<and>
      (domNode (heap s ! a) \<noteq> None \<longrightarrow> domNode (heap s1 ! a) = domNode (heap s ! a))"
proof -
  define L where "L = length (heap s)"
  obtain sa where
    dom: "(case domNode (heap s ! a) of
          None \<Rightarrow>
            (case createDom (document s) (heap s ! a) of
               Inl e \<Rightarrow> Some (Inl e)
             | Inr (d, dom0) \<Rightarrow>
                 Some (Inr (s\<lparr>heap := (heap s)[a := (heap s ! a)\<lparr>domNode := Some dom0\<rparr>],
                             document := d\<rparr>)))
        | Some dom0 \<Rightarrow> Some (Inr s)) = Some (Inr sa)"
    and sa_len: "length (heap sa) = L"
    and sa_glob: "currentRoot sa = currentRoot s" "wipRoot sa = wipRoot s" "deletions sa = deletions s"
       "nextUnitOfWork sa = nextUnitOfWork s"
    and sa_doc: "m \<noteq> None \<longrightarrow> sa = s"
    and sa_dom: "domNode (heap s ! a) \<noteq> None \<longrightarrow> sa = s"
    and sa_fr: "\<And>b. b \<noteq> a \<Longrightarrow> heap sa ! b = heap s ! b"
    and sa_a: "ftype (heap sa ! a) = ftype (heap s ! a)" "props (heap sa ! a) = props (heap s ! a)"
      "parent (heap sa ! a) = parent (heap s ! a)" "sibling (heap sa ! a) = sibling (heap s ! a)"
      "alternate (heap sa ! a) = alternate (heap s ! a)" "effectTag (heap sa ! a) = effectTag (heap s ! a)"
      "child (heap sa ! a) = child (heap s ! a)" "domNode (heap sa ! a) \<noteq> None"
  proof (cases "domNode (heap s ! a)")
    case None
    from createDom_Some [OF pr] obtain d where d: "createDom (document s) (heap s ! a) = Inr (d, length (document s))"
      by blast
    show ?thesis
      by (rule that [of "s\<lparr>heap := (heap s)[a := (heap s ! a)\<lparr>domNode := Some (length (document s))\<rparr>],
                             document := d\<rparr>"])
         (use None d a dn in \<open>simp_all add: L_def\<close>)
  next
    case (Some dom0)
    show ?thesis by (rule that [of s]) (use Some in \<open>simp_all add: L_def\<close>)
  qed
  have alt': "case m of
        None \<Rightarrow> alternate (heap sa ! a) = None
      | Some shift \<Rightarrow>
          alternate (heap sa ! a) = Some (a - shift) \<and> shift \<le> length (heap sa) \<and>
          (\<exists>po dold. builtChildren mo (heap sa) (child (heap sa ! (a - shift))) po cs
             (length (heap sa) - shift) dold)"
    using alt sa_doc sa_a(5) by (cases m) auto
  have a': "a < length (heap sa)" using a sa_len by (simp add: L_def)
  note rc = reconcile_children [OF wf a' fuel(1) alt', unfolded sa_len]
  from rc obtain s1 where r: "reconcileChildren fuel a cs sa = Some (Inr s1)"
    and r1: "length (heap s1) = L + length cs" "document s1 = document sa"
      "nextUnitOfWork s1 = nextUnitOfWork sa"
      "currentRoot s1 = currentRoot sa" "wipRoot s1 = wipRoot sa" "deletions s1 = deletions sa"
    and r2: "\<forall>b < L. b \<noteq> a \<longrightarrow> heap s1 ! b = heap sa ! b"
    and r3: "heap s1 ! a = (heap sa ! a)\<lparr>child := (if cs = [] then child (heap sa ! a) else Some L)\<rparr>"
    and r4: "\<forall>j < length cs.
         fiberFor m (heap s1) (L + j) a (cs ! j) \<and>
         child (heap s1 ! (L + j)) = None \<and>
         sibling (heap s1 ! (L + j)) = (if j + 1 < length cs then Some (L + j + 1) else None) \<and>
         domNode (heap s1 ! (L + j)) =
           (case m of None \<Rightarrow> None | Some shift \<Rightarrow> domNode (heap sa ! (L + j - shift)))"
    by blast
  have uh: "updateHostComponent fuel a s = Some (Inr s1)"
    using dom r pr sa_a(2) by (simp add: updateHostComponent_def)
  have c1: "child (heap s1 ! a) = (if cs = [] then None else Some L)"
    using r3 sa_a(7) ch by simp
  have pth: "parentPath (heap s1) a path"
  proof (rule parentPath_frame [OF path(1)])
    fix x assume "x \<in> set path"
    then have "x < L" using path(2) by (simp add: L_def)
    then show "parent (heap s1 ! x) = parent (heap s ! x)"
      using r2 r3 sa_fr [of x] sa_a(3) by (cases "x = a") auto
  qed
  have nab: "nextAbove (heap s1) path = nextAbove (heap s) path"
  proof (rule nextAbove_frame)
    fix x assume "x \<in> set path"
    then have "x < L" using path(2) by (simp add: L_def)
    then show "sibling (heap s1 ! x) = sibling (heap s ! x)"
      using r2 r3 sa_fr [of x] sa_a(4) by (cases "x = a") auto
  qed
  have nu: "nextUnit fuel (heap s1) a = Some (if cs = [] then nextAbove (heap s) path else Some L)"
    using c1 siblingAbove_path [OF pth fuel(2)] nab
    by (auto simp: nextUnit_def nextAbove_def)
  have p: "performUnitOfWork fuel a s = Some (Inr (s1, if cs = [] then nextAbove (heap s) path else Some L))"
    using uh nu by (simp add: performUnitOfWork_def bind_res_def)
  have olddom: "domNode (heap s ! (L + j - shift)) \<noteq> None" if "m = Some shift" "j < length cs" for shift j
  proof -
    from alt that(1) obtain po dold where "shift \<le> L"
      and b: "builtChildren mo (heap s) (child (heap s ! (a - shift))) po cs (L - shift) dold"
      by (auto simp: L_def)
    then show ?thesis using builtChildren_chain [OF b] that(2) by (auto simp: add.commute)
  qed
  have kids: "fiberFor m (heap s1) (L + j) a (cs ! j) \<and>
         child (heap s1 ! (L + j)) = None \<and>
         sibling (heap s1 ! (L + j)) = (if j + 1 < length cs then Some (L + j + 1) else None) \<and>
         (m \<noteq> None \<longrightarrow> domNode (heap s1 ! (L + j)) \<noteq> None)" if "j < length cs" for j
    using r4 [rule_format, OF that] olddom [OF _ that] sa_doc by (cases m) auto
  have fr: "\<forall>b < L. b \<noteq> a \<longrightarrow> heap s1 ! b = heap s ! b"
    using r2 sa_fr by simp
  have doc: "m \<noteq> None \<longrightarrow> document s1 = document s" using r1(2) sa_doc by auto
  have dsame: "domNode (heap s ! a) \<noteq> None \<longrightarrow> domNode (heap s1 ! a) = domNode (heap s ! a)"
    using r3 sa_dom by auto
  show ?thesis
    using p r1 sa_glob fr r3 sa_a c1 kids doc dsame unfolding L_def by (intro exI [of _ s1]) simp
qed


lemma performUnits_idle: "nextUnitOfWork s = None \<Longrightarrow> performUnits fuel k s = Some (Inr s)"
  by (cases k) simp_all

lemma performUnits_add:
  "performUnits fuel (k1 + k2) s = bind_res (performUnits fuel k1 s) (performUnits fuel k2)"
proof (induction k1 arbitrary: s)
  case 0
  then show ?case by simp
next
  case (Suc k1)
  show ?case
  proof (cases "nextUnitOfWork s")
    case None
    then show ?thesis by (simp add: performUnits_idle)
  next
    case (Some a)
    then show ?thesis
      by (auto simp: Suc bind_res_assoc intro!: bind_res_cong)
  qed
qed

lemma fiberFor_frame:
  "fiberFor m h x p e \<Longrightarrow> length h \<le> length h' \<Longrightarrow> h' ! x = h ! x \<Longrightarrow> fiberFor m h' x p e"
  by (auto simp: fiberFor_def split: option.splits)

lemma parentPath_hd: "parentPath h a path \<Longrightarrow> \<exists>rest. path = a # rest"
  by (induction h a path rule: parentPath.induct) auto

lemma parentPath_child:
  "parentPath h a path \<Longrightarrow> parent (h ! r) = Some a \<Longrightarrow> parentPath h r (r # path)"
  using parentPath_hd [of h a path] by auto

lemma pendingChildren_tl:
  assumes "pendingChildren m h r a (e # es)"
    and "length h \<le> length h'"
    and "\<And>b. r < b \<Longrightarrow> b \<le> r + length es \<Longrightarrow> h' ! b = h ! b"
  shows "pendingChildren m h' (Suc r) a es"
  unfolding pendingChildren_def
proof (intro allI impI)
  fix j assume j: "j < length es"
  have eq: "h' ! (Suc r + j) = h ! (r + Suc j)" using assms(3) [of "Suc r + j"] j by simp
  have "fiberFor m h (r + Suc j) a ((e # es) ! Suc j) \<and> child (h ! (r + Suc j)) = None \<and>
        sibling (h ! (r + Suc j)) = (if Suc j + 1 < length (e # es) then Some (r + Suc j + 1) else None) \<and>
        (m \<noteq> None \<longrightarrow> domNode (h ! (r + Suc j)) \<noteq> None)"
    using assms(1) j unfolding pendingChildren_def by (metis length_Cons Suc_less_eq)
  then show "fiberFor m h' (Suc r + j) a (es ! j) \<and> child (h' ! (Suc r + j)) = None \<and>
        sibling (h' ! (Suc r + j)) = (if j + 1 < length es then Some (Suc r + j + 1) else None) \<and>
        (m \<noteq> None \<longrightarrow> domNode (h' ! (Suc r + j)) \<noteq> None)"
    using eq assms(2) fiberFor_frame [of m h "r + Suc j" a "es ! j" h'] by auto
qed


lemma perform_forest:
  "\<forall>e \<in> set es. \<forall>s a p path po. pendingTree m mo M fuel e s a p path po \<longrightarrow>
       (\<exists>s'. passedTree m fuel e s a p path s') \<Longrightarrow>
   es \<noteq> [] \<Longrightarrow> list_all wellFormed es \<Longrightarrow> nextUnitOfWork s = Some r \<Longrightarrow>
   pendingChildren m (heap s) r a es \<Longrightarrow>
   parentPath (heap s) a path \<Longrightarrow> \<forall>x \<in> set path. x < length (heap s) \<Longrightarrow>
   sum_list (map nodes es) + length path + 1 < fuel \<Longrightarrow>
   (case m of
      None \<Rightarrow> True
    | Some shift \<Rightarrow>
        shift \<le> r \<and>
        (\<exists>c po. builtChildren mo (heap s) c po es (r - shift) (length (heap s) - shift)) \<and>
        M \<le> r \<and> r - shift + length es \<le> M \<and>
        length (heap s) - shift + sum_list (map descendants es) \<le> M) \<Longrightarrow>
   \<exists>s'. performUnits fuel (sum_list (map nodes es)) s = Some (Inr s') \<and>
        nextUnitOfWork s' = nextAbove (heap s) path \<and>
        length (heap s') = length (heap s) + sum_list (map descendants es) \<and>
        builtChildren m (heap s') (Some r) a es r (length (heap s)) \<and>
        (\<forall>b < length (heap s). \<not> (r \<le> b \<and> b < r + length es) \<longrightarrow> heap s' ! b = heap s ! b) \<and>
        currentRoot s' = currentRoot s \<and> wipRoot s' = wipRoot s \<and> deletions s' = deletions s \<and>
        (m \<noteq> None \<longrightarrow> document s' = document s)"
proof (induction es arbitrary: s r)
  case Nil
  then show ?case by simp
next
  case (Cons e es)
  define L where "L = length (heap s)"
  note trees = Cons.prems(1)
  note kids = Cons.prems(5)
  note pth = Cons.prems(6)
  note pl = Cons.prems(7)
  note fu = Cons.prems(8)
  note old = Cons.prems(9)
  have k0: "fiberFor m (heap s) r a e" "child (heap s ! r) = None"
    "sibling (heap s ! r) = (if es = [] then None else Some (Suc r))"
    "m \<noteq> None \<longrightarrow> domNode (heap s ! r) \<noteq> None"
    using kids unfolding pendingChildren_def by (auto dest!: spec [of _ 0])
  have kl: "r + length es < L"
    using kids unfolding pendingChildren_def L_def
    by (auto dest!: spec [of _ "length es"] simp: fiberFor_def)
  have pp: "parentPath (heap s) r (r # path)"
    using parentPath_child [OF pth] k0(1) by (simp add: fiberFor_def)
  have "\<exists>po. pendingTree m mo M fuel e s r a (r # path) po"
  proof (cases m)
    case None
    then show ?thesis
      unfolding pendingTree_def
      using Cons.prems(3,4) k0 pp pl kl fu by (auto simp: L_def)
  next
    case (Some shift)
    from old Some obtain c po where sh: "shift \<le> r"
      and bc: "builtChildren mo (heap s) c po (e # es) (r - shift) (L - shift)"
      and M: "M \<le> r" "r - shift + Suc (length es) \<le> M"
        "L - shift + (descendants e + sum_list (map descendants es)) \<le> M"
      by (auto simp: L_def)
    from bc have bt: "builtTree mo (heap s) (r - shift) po e (L - shift)" by simp
    have "pendingTree m mo M fuel e s r a (r # path) po"
      unfolding pendingTree_def Some
      using Cons.prems(3,4) k0 pp pl kl fu sh bt M Some by (auto simp: L_def)
    then show ?thesis ..
  qed
  then obtain po where pt: "pendingTree m mo M fuel e s r a (r # path) po" ..
  have "e \<in> set (e # es)" by simp
  from trees [rule_format, OF this pt]
  obtain s1 where p1: "passedTree m fuel e s r a (r # path) s1"
    by blast
  then have u1: "performUnits fuel (nodes e) s = Some (Inr s1)"
    and n1: "nextUnitOfWork s1 = nextAbove (heap s) (r # path)"
    and l1: "length (heap s1) = L + descendants e"
    and b1: "builtTree m (heap s1) r a e L"
    and f1: "\<And>b. b < L \<Longrightarrow> b \<noteq> r \<Longrightarrow> heap s1 ! b = heap s ! b"
    and sb1: "sibling (heap s1 ! r) = sibling (heap s ! r)"
    and g1: "currentRoot s1 = currentRoot s" "wipRoot s1 = wipRoot s" "deletions s1 = deletions s"
      "m \<noteq> None \<longrightarrow> document s1 = document s"
    unfolding passedTree_def L_def by simp_all
  have par1: "parent (heap s1 ! r) = parent (heap s ! r)"
    using builtTree_fiberFor [OF b1] k0(1) by (simp add: fiberFor_def)
  show ?case
  proof (cases "es = []")
    case True
    have "nextUnitOfWork s1 = nextAbove (heap s) path"
      using n1 k0(3) True by (simp add: nextAbove_Cons)
    moreover have "builtChildren m (heap s1) (Some r) a (e # es) r L"
      using b1 sb1 k0(3) True by simp
    moreover have "\<forall>b < L. \<not> (r \<le> b \<and> b < r + length (e # es)) \<longrightarrow> heap s1 ! b = heap s ! b"
      using f1 True by auto
    ultimately show ?thesis
      using u1 l1 g1 True unfolding L_def by (intro exI [of _ s1]) simp
  next
    case False
    have nx: "nextUnitOfWork s1 = Some (Suc r)"
      using n1 k0(3) False by (simp add: nextAbove_Cons)
    have len: "length (heap s) \<le> length (heap s1)" using l1 by (simp add: L_def)
    have kids1: "pendingChildren m (heap s1) (Suc r) a es"
      by (rule pendingChildren_tl [OF kids len]) (use f1 kl in auto)
    have same: "parent (heap s1 ! x) = parent (heap s ! x) \<and> sibling (heap s1 ! x) = sibling (heap s ! x)"
      if "x \<in> set path" for x
      using that pl f1 [of x] par1 sb1 by (cases "x = r") (auto simp: L_def)
    have pth1: "parentPath (heap s1) a path"
      by (rule parentPath_frame [OF pth]) (simp add: same)
    have na1: "nextAbove (heap s1) path = nextAbove (heap s) path"
      by (rule nextAbove_frame) (simp add: same)
    have pl1: "\<forall>x \<in> set path. x < length (heap s1)" using pl len by auto
    have fu1: "sum_list (map nodes es) + length path + 1 < fuel" using fu by simp
    have old1: "case m of
        None \<Rightarrow> True
      | Some shift \<Rightarrow>
          shift \<le> Suc r \<and>
          (\<exists>c po. builtChildren mo (heap s1) c po es (Suc r - shift) (length (heap s1) - shift)) \<and>
          M \<le> Suc r \<and> Suc r - shift + length es \<le> M \<and>
          length (heap s1) - shift + sum_list (map descendants es) \<le> M"
    proof (cases m)
      case None
      then show ?thesis by simp
    next
      case (Some shift)
      from old Some obtain c po where sh: "shift \<le> r"
        and bc: "builtChildren mo (heap s) c po (e # es) (r - shift) (L - shift)"
        and M: "M \<le> r" "r - shift + Suc (length es) \<le> M"
          "L - shift + (descendants e + sum_list (map descendants es)) \<le> M"
        by (auto simp: L_def)
      from bc have rest: "builtChildren mo (heap s) (sibling (heap s ! (r - shift))) po es
          (Suc (r - shift)) (L - shift + descendants e)" by simp
      have "builtChildren mo (heap s1) (sibling (heap s ! (r - shift))) po es
          (Suc (r - shift)) (L - shift + descendants e)"
      proof (rule builtChildren_frame [OF rest len])
        fix b assume "Suc (r - shift) \<le> b" "b < Suc (r - shift) + length es"
        then have "b < r" using M by simp
        then show "heap s1 ! b = heap s ! b" using f1 [of b] kl by simp
      next
        fix b assume "L - shift + descendants e \<le> b"
          "b < L - shift + descendants e + sum_list (map descendants es)"
        then have "b < r" using M by simp
        then show "heap s1 ! b = heap s ! b" using f1 [of b] kl by simp
      qed
      moreover have "Suc (r - shift) = Suc r - shift" using sh by simp
      moreover have "L - shift + descendants e = length (heap s1) - shift"
        using l1 sh kl by simp
      ultimately have "\<exists>c po. builtChildren mo (heap s1) c po es (Suc r - shift) (length (heap s1) - shift)"
        by auto
      moreover have "Suc r - shift + length es \<le> M" using sh M by linarith
      moreover have "length (heap s1) - shift + sum_list (map descendants es) \<le> M"
        using sh M l1 kl by linarith
      ultimately show ?thesis using Some sh M by simp
    qed
    have trees1: "\<forall>e \<in> set es. \<forall>s a p path po. pendingTree m mo M fuel e s a p path po \<longrightarrow>
       (\<exists>s'. passedTree m fuel e s a p path s')"
    proof (intro ballI allI impI)
      fix c s a p path po
      assume "c \<in> set es" and c: "pendingTree m mo M fuel c s a p path po"
      then have "c \<in> set (e # es)" by simp
      from trees [rule_format, OF this c] show "\<exists>s'. passedTree m fuel c s a p path s'" .
    qed
    have wf1: "list_all wellFormed es" using Cons.prems(3) by simp
    from Cons.IH [OF trees1 False wf1 nx kids1 pth1 pl1 fu1 old1]
    obtain s2 where u2: "performUnits fuel (sum_list (map nodes es)) s1 = Some (Inr s2)"
      and n2: "nextUnitOfWork s2 = nextAbove (heap s1) path"
      and l2: "length (heap s2) = length (heap s1) + sum_list (map descendants es)"
      and b2: "builtChildren m (heap s2) (Some (Suc r)) a es (Suc r) (length (heap s1))"
      and f2: "\<forall>b < length (heap s1). \<not> (Suc r \<le> b \<and> b < Suc r + length es) \<longrightarrow> heap s2 ! b = heap s1 ! b"
      and g2: "currentRoot s2 = currentRoot s1" "wipRoot s2 = wipRoot s1" "deletions s2 = deletions s1"
        "m \<noteq> None \<longrightarrow> document s2 = document s1"
      by blast
    have u: "performUnits fuel (sum_list (map nodes (e # es))) s = Some (Inr s2)"
      using u1 u2 by (simp add: performUnits_add)
    have r2: "heap s2 ! r = heap s1 ! r" using f2 kl l1 by simp
    have bt: "builtTree m (heap s2) r a e L"
    proof (rule builtTree_frame [OF b1 _ r2])
      show "length (heap s1) \<le> length (heap s2)" using l2 by simp
      fix b assume "L \<le> b" "b < L + descendants e"
      then show "heap s2 ! b = heap s1 ! b" using f2 l1 kl by simp
    qed
    have "sibling (heap s2 ! r) = Some (Suc r)" using r2 sb1 k0(3) False by simp
    then have bc: "builtChildren m (heap s2) (Some r) a (e # es) r L"
      using bt b2 l1 by simp
    have fr: "\<forall>b < L. \<not> (r \<le> b \<and> b < r + length (e # es)) \<longrightarrow> heap s2 ! b = heap s ! b"
    proof (intro allI impI)
      fix b assume b: "b < L" "\<not> (r \<le> b \<and> b < r + length (e # es))"
      then have "heap s2 ! b = heap s1 ! b" using f2 l1 by auto
      moreover have "heap s1 ! b = heap s ! b" using f1 [of b] b by auto
      ultimately show "heap s2 ! b = heap s ! b" by simp
    qed
    show ?thesis
      using u n2 na1 l2 l1 bc fr g1 g2 unfolding L_def by (intro exI [of _ s2]) auto
  qed
qed


lemma nodes_children: "sum_list (map nodes cs) = length cs + sum_list (map descendants cs)"
  by (induction cs) (auto simp: nodes_def)

lemma descendants_Elem: "descendants (Elem t kvs cs) = length cs + sum_list (map descendants cs)"
  by (simp add: descendants_children)

lemma perform_tree:
  "pendingTree m mo M fuel e s a p path po \<Longrightarrow> \<exists>s'. passedTree m fuel e s a p path s'"
proof (induction e arbitrary: s a p path po)
  case (Val v)
  then show ?case by (simp add: pendingTree_def)
next
  case (Arr xs)
  then show ?case by (simp add: pendingTree_def)
next
  case (Elem t kvs cs)
  let ?e = "Elem t kvs cs"
  define L where "L = length (heap s)"
  note pre = Elem.prems [unfolded pendingTree_def]
  from pre have wf: "list_all wellFormed cs" and nx: "nextUnitOfWork s = Some a"
    and ff: "fiberFor m (heap s) a p ?e" and ch: "child (heap s ! a) = None"
    and pth: "parentPath (heap s) a path" and pl: "\<forall>x \<in> set path. x < length (heap s)"
    and fu: "nodes ?e + length path < fuel"
    by simp_all
  have old: "domNode (heap s ! a) \<noteq> None \<and> shift \<le> L \<and>
          builtTree mo (heap s) (a - shift) po ?e (L - shift) \<and>
          M \<le> a \<and> a - shift < M \<and> L - shift + descendants ?e \<le> M" if "m = Some shift" for shift
    using pre that by (auto simp: L_def simp del: builtTree.simps descendants.simps)
  have oldc: "builtChildren mo (heap s) (child (heap s ! (a - shift))) (a - shift) cs
        (L - shift) (L - shift + length cs)" if "m = Some shift" for shift
    using old [OF that] unfolding builtTree.simps by blast
  have olda: "shift \<le> L" "M \<le> a" "a - shift < M" "L - shift + descendants ?e \<le> M"
    if "m = Some shift" for shift
    using old [OF that] by blast+
  have a: "a < length (heap s)" and pr: "props (heap s ! a) = Some \<lparr>attrs = kvs, children = cs\<rparr>"
    using ff by (simp_all add: fiberFor_def)
  have de: "descendants ?e = length cs + sum_list (map descendants cs)"
    by (rule descendants_Elem)
  have fu1: "length cs < fuel" and fu2: "length path < fuel"
    using fu de by (simp_all add: nodes_def)
  have alt: "case m of
        None \<Rightarrow> alternate (heap s ! a) = None
      | Some shift \<Rightarrow>
          alternate (heap s ! a) = Some (a - shift) \<and> shift \<le> length (heap s) \<and>
          (\<exists>po dold. builtChildren mo (heap s) (child (heap s ! (a - shift))) po cs
             (length (heap s) - shift) dold)"
  proof (cases m)
    case None
    then show ?thesis using ff by (simp add: fiberFor_def)
  next
    case (Some shift)
    note sh = olda(1) [OF Some]
    from oldc [OF Some] have "\<exists>po dold. builtChildren mo (heap s) (child (heap s ! (a - shift))) po cs
        (length (heap s) - shift) dold" unfolding L_def by blast
    moreover have "alternate (heap s ! a) = Some (a - shift)"
      using ff Some by (simp add: fiberFor_def)
    ultimately show ?thesis using Some sh by (simp add: L_def)
  qed
  have dn: "m \<noteq> None \<longrightarrow> domNode (heap s ! a) \<noteq> None" using old by auto
  from perform_unit [OF wf a pr ch fu1 fu2 pth pl alt dn]
  obtain s1 where pu: "performUnitOfWork fuel a s =
        Some (Inr (s1, if cs = [] then nextAbove (heap s) path else Some L))"
    and l1: "length (heap s1) = L + length cs"
    and g1: "currentRoot s1 = currentRoot s" "wipRoot s1 = wipRoot s" "deletions s1 = deletions s"
      "m \<noteq> None \<longrightarrow> document s1 = document s"
    and f1: "\<forall>b < L. b \<noteq> a \<longrightarrow> heap s1 ! b = heap s ! b"
    and a1: "ftype (heap s1 ! a) = ftype (heap s ! a)" "props (heap s1 ! a) = props (heap s ! a)"
      "parent (heap s1 ! a) = parent (heap s ! a)" "sibling (heap s1 ! a) = sibling (heap s ! a)"
      "alternate (heap s1 ! a) = alternate (heap s ! a)" "effectTag (heap s1 ! a) = effectTag (heap s ! a)"
      "domNode (heap s1 ! a) \<noteq> None"
      "child (heap s1 ! a) = (if cs = [] then None else Some L)"
    and k1: "\<forall>j < length cs.
         fiberFor m (heap s1) (L + j) a (cs ! j) \<and>
         child (heap s1 ! (L + j)) = None \<and>
         sibling (heap s1 ! (L + j)) = (if j + 1 < length cs then Some (L + j + 1) else None) \<and>
         (m \<noteq> None \<longrightarrow> domNode (heap s1 ! (L + j)) \<noteq> None)"
    unfolding L_def by blast
  define nxt where "nxt = (if cs = [] then nextAbove (heap s) path else Some L)"
  define s1' where "s1' = s1\<lparr>nextUnitOfWork := nxt\<rparr>"
  have step: "performUnits fuel (nodes ?e) s = performUnits fuel (descendants ?e) s1'"
    using nx pu unfolding nodes_def s1'_def nxt_def by simp
  have ff1: "fiberFor m (heap s1) a p ?e"
    using ff a1 l1 by (auto simp: fiberFor_def L_def split: option.splits)
  have same: "parent (heap s1 ! x) = parent (heap s ! x) \<and> sibling (heap s1 ! x) = sibling (heap s ! x)"
    if "x \<in> set path" for x
    using that pl f1 a1(3,4) by (cases "x = a") (auto simp: L_def)
  show ?case
  proof (cases "cs = []")
    case True
    have "performUnits fuel (nodes ?e) s = Some (Inr s1')"
      using step True by simp
    moreover have "builtTree m (heap s1') a p ?e L"
      using ff1 a1(7,8) True by (simp add: s1'_def)
    ultimately show ?thesis
      unfolding passedTree_def
      using True l1 f1 a1(4) g1
      by (intro exI [of _ s1']) (simp add: s1'_def nxt_def L_def)
  next
    case False
    have trees: "\<forall>e \<in> set cs. \<forall>s a p path po. pendingTree m mo M fuel e s a p path po \<longrightarrow>
       (\<exists>s'. passedTree m fuel e s a p path s')"
      using Elem.IH by blast
    have nx1: "nextUnitOfWork s1' = Some L" using False by (simp add: s1'_def nxt_def)
    have h1: "heap s1' = heap s1" by (simp add: s1'_def)
    have kids: "pendingChildren m (heap s1') L a cs"
      unfolding pendingChildren_def h1 using k1 by simp
    have pth1: "parentPath (heap s1') a path"
      unfolding h1 by (rule parentPath_frame [OF pth]) (simp add: same)
    have na1: "nextAbove (heap s1') path = nextAbove (heap s) path"
      unfolding h1 by (rule nextAbove_frame) (simp add: same)
    have pl1: "\<forall>x \<in> set path. x < length (heap s1')" using pl l1 by (auto simp: h1 L_def)
    have fuf: "sum_list (map nodes cs) + length path + 1 < fuel"
      using fu de by (simp add: nodes_children nodes_def)
    have old1: "case m of
        None \<Rightarrow> True
      | Some shift \<Rightarrow>
          shift \<le> L \<and>
          (\<exists>c po. builtChildren mo (heap s1') c po cs (L - shift) (length (heap s1') - shift)) \<and>
          M \<le> L \<and> L - shift + length cs \<le> M \<and>
          length (heap s1') - shift + sum_list (map descendants cs) \<le> M"
    proof (cases m)
      case None
      then show ?thesis by simp
    next
      case (Some shift)
      note bc = oldc [OF Some]
      have M: "M \<le> a" "L - shift + length cs + sum_list (map descendants cs) \<le> M" "shift \<le> L"
        using olda [OF Some] de by simp_all
      have "builtChildren mo (heap s1) (child (heap s ! (a - shift))) (a - shift) cs
          (L - shift) (L - shift + length cs)"
      proof (rule builtChildren_frame [OF bc])
        show "length (heap s) \<le> length (heap s1)" using l1 by (simp add: L_def)
      next
        fix b assume "L - shift \<le> b" "b < L - shift + length cs"
        then have "b < a" using M by linarith
        then show "heap s1 ! b = heap s ! b" using f1 a by (simp add: L_def)
      next
        fix b assume "L - shift + length cs \<le> b" "b < L - shift + length cs + sum_list (map descendants cs)"
        then have "b < a" using M by linarith
        then show "heap s1 ! b = heap s ! b" using f1 a by (simp add: L_def)
      qed
      moreover have "L - shift + length cs = length (heap s1') - shift"
        using l1 M(3) by (simp add: h1)
      ultimately have "\<exists>c po. builtChildren mo (heap s1') c po cs (L - shift) (length (heap s1') - shift)"
        unfolding h1 by auto
      moreover have "M \<le> L" using M(1) a by (simp add: L_def)
      moreover have "L - shift + length cs \<le> M" using M(2) by linarith
      moreover have "length (heap s1') - shift + sum_list (map descendants cs) \<le> M"
        using M l1 by (simp add: h1)
      ultimately show ?thesis using Some M(3) by simp
    qed
    from perform_forest [OF trees False wf nx1 kids pth1 pl1 fuf old1]
    obtain s2 where u2: "performUnits fuel (sum_list (map nodes cs)) s1' = Some (Inr s2)"
      and n2: "nextUnitOfWork s2 = nextAbove (heap s1') path"
      and l2: "length (heap s2) = length (heap s1') + sum_list (map descendants cs)"
      and b2: "builtChildren m (heap s2) (Some L) a cs L (length (heap s1'))"
      and f2: "\<forall>b < length (heap s1'). \<not> (L \<le> b \<and> b < L + length cs) \<longrightarrow> heap s2 ! b = heap s1' ! b"
      and g2: "currentRoot s2 = currentRoot s1'" "wipRoot s2 = wipRoot s1'" "deletions s2 = deletions s1'"
        "m \<noteq> None \<longrightarrow> document s2 = document s1'"
      by blast
    have dn: "descendants ?e = sum_list (map nodes cs)" using de by (simp add: nodes_children)
    have u: "performUnits fuel (nodes ?e) s = Some (Inr s2)"
      using step u2 dn by simp
    have a2: "heap s2 ! a = heap s1 ! a" using f2 a l1 by (simp add: h1 L_def)
    have "fiberFor m (heap s2) a p ?e"
      by (rule fiberFor_frame [OF ff1 _ a2]) (use l2 in \<open>simp add: h1\<close>)
    then have bt: "builtTree m (heap s2) a p ?e L"
      using a2 a1(7,8) False b2 l1 by (simp add: h1)
    have fr: "\<forall>b < L. b \<noteq> a \<longrightarrow> heap s2 ! b = heap s ! b"
      using f1 f2 l1 by (simp add: h1)
    have "length (heap s2) = L + descendants ?e" using l2 l1 de by (simp add: h1)
    then show ?thesis
      unfolding passedTree_def
      using u n2 na1 bt fr a2 a1(4) g1 g2
      by (intro exI [of _ s2]) (simp add: s1'_def L_def)
  qed
qed


lemma builtTree_tags:
  "builtTree m h x p e lo \<Longrightarrow> b = x \<or> lo \<le> b \<and> b < lo + descendants e \<Longrightarrow>
   effectTag (h ! b) = Some (case m of None \<Rightarrow> PLACEMENT | Some shift \<Rightarrow> UPDATE)"
  and builtChildren_tags:
  "builtChildren m h c p es r d \<Longrightarrow>
   r \<le> b \<and> b < r + length es \<or> d \<le> b \<and> b < d + sum_list (map descendants es) \<Longrightarrow>
   effectTag (h ! b) = Some (case m of None \<Rightarrow> PLACEMENT | Some shift \<Rightarrow> UPDATE)"
proof (induction m h x p e lo and m h c p es r d rule: builtTree_builtChildren.induct)
  case (1 m h x p t kvs cs lo)
  show ?case
  proof (cases "b = x")
    case True
    then show ?thesis using 1(2) by (auto simp: fiberFor_def split: option.splits)
  next
    case False
    show ?thesis
    proof (rule 1(1))
      show "builtChildren m h (child (h ! x)) x cs lo (lo + length cs)" using 1(2) by simp
      show "lo \<le> b \<and> b < lo + length cs \<or>
            lo + length cs \<le> b \<and> b < lo + length cs + sum_list (map descendants cs)"
        using 1(3) False by (auto simp: descendants_children)
    qed
  qed
next
  case (2 m h x p v lo)
  then show ?case by simp
next
  case (3 m h x p xs lo)
  then show ?case by simp
next
  case (4 m h c p r d)
  then show ?case by auto
next
  case (5 m h c p e es r d)
  from 5(3) have t: "builtTree m h r p e d"
    and c: "builtChildren m h (sibling (h ! r)) p es (Suc r) (d + descendants e)" by simp_all
  have "(b = r \<or> d \<le> b \<and> b < d + descendants e) \<or>
      (Suc r \<le> b \<and> b < Suc r + length es \<or>
       d + descendants e \<le> b \<and> b < d + descendants e + sum_list (map descendants es))"
    using 5(4) by auto
  then show ?case using 5(1) [OF t] 5(2) [OF c] by blast
qed

lemma render_pass:
  assumes wf: "wellFormed D"
    and fuel: "nodes D + 2 < fuel"
    and mode: "case m of
        None \<Rightarrow> currentRoot s = None
      | Some shift \<Rightarrow>
          nodes D < shift \<and> shift \<le> length (heap s) \<and>
          currentRoot s = Some (length (heap s) - shift) \<and>
          child (heap s ! (length (heap s) - shift)) = Some (length (heap s) - shift + 1) \<and>
          sibling (heap s ! (length (heap s) - shift + 1)) = None \<and>
          builtTree mo (heap s) (length (heap s) - shift + 1) (length (heap s) - shift) D
            (length (heap s) - shift + 2)"
  shows "\<exists>s'. performUnits fuel (Suc (nodes D)) (render D c s) = Some (Inr s') \<and>
      nextUnitOfWork s' = None \<and>
      length (heap s') = length (heap s) + 1 + nodes D \<and>
      builtTree m (heap s') (length (heap s) + 1) (length (heap s)) D (length (heap s) + 2) \<and>
      child (heap s' ! length (heap s)) = Some (length (heap s) + 1) \<and>
      sibling (heap s' ! (length (heap s) + 1)) = None \<and>
      domNode (heap s' ! length (heap s)) = Some c \<and>
      (\<forall>b < length (heap s). heap s' ! b = heap s ! b) \<and>
      currentRoot s' = currentRoot s \<and> wipRoot s' = Some (length (heap s)) \<and> deletions s' = [] \<and>
      (m \<noteq> None \<longrightarrow> document s' = document s)"
proof -
  define L where "L = length (heap s)"
  define root where "root = \<lparr>ftype = None, props = Some \<lparr>attrs = [], children = [D]\<rparr>,
            domNode = Some c, parent = None, child = None, sibling = None,
            alternate = currentRoot s, effectTag = None\<rparr>"
  define sr where "sr = render D c s"
  have hr: "heap sr = heap s @ [root]" and nr: "nextUnitOfWork sr = Some L"
    and gr: "currentRoot sr = currentRoot s" "wipRoot sr = Some L" "deletions sr = []"
      "document sr = document s"
    by (simp_all add: sr_def render_def root_def L_def)
  have lr: "length (heap sr) = L + 1" by (simp add: hr L_def)
  have rL: "heap sr ! L = root" by (simp add: hr L_def)
  have below: "heap sr ! b = heap s ! b" if "b < L" for b
    using that by (simp add: hr L_def nth_append)
  have old: "shift \<le> L \<and> nodes D < shift \<and> currentRoot s = Some (L - shift) \<and>
      child (heap s ! (L - shift)) = Some (L - shift + 1) \<and>
      sibling (heap s ! (L - shift + 1)) = None \<and>
      builtTree mo (heap s) (L - shift + 1) (L - shift) D (L - shift + 2)" if "m = Some shift" for shift
    using mode that by (auto simp: L_def simp del: builtTree.simps)
  have oldr: "builtTree mo (heap sr) (L - shift + 1) (L - shift) D (L - shift + 2)"
    if "m = Some shift" for shift
  proof (rule builtTree_frame)
    show "builtTree mo (heap s) (L - shift + 1) (L - shift) D (L - shift + 2)"
      using old [OF that] by blast
    show "length (heap s) \<le> length (heap sr)" by (simp add: hr)
    show "heap sr ! (L - shift + 1) = heap s ! (L - shift + 1)"
      using old [OF that] by (intro below) (auto simp: nodes_def)
    fix b assume "L - shift + 2 \<le> b" "b < L - shift + 2 + descendants D"
    then show "heap sr ! b = heap s ! b"
      using old [OF that] by (intro below) (auto simp: nodes_def)
  qed
  have wfs: "list_all wellFormed [D]" using wf by simp
  have a: "L < length (heap sr)" using lr by simp
  have pr: "props (heap sr ! L) = Some \<lparr>attrs = [], children = [D]\<rparr>" by (simp add: rL root_def)
  have ch: "child (heap sr ! L) = None" by (simp add: rL root_def)
  have f1: "length [D] < fuel" "length [L] < fuel" using fuel by simp_all
  have pth: "parentPath (heap sr) L [L]" by (simp add: rL root_def)
  have pl: "\<forall>x \<in> set [L]. x < length (heap sr)" using lr by simp
  have alt: "case m of
        None \<Rightarrow> alternate (heap sr ! L) = None
      | Some shift \<Rightarrow>
          alternate (heap sr ! L) = Some (L - shift) \<and> shift \<le> length (heap sr) \<and>
          (\<exists>po dold. builtChildren mo (heap sr) (child (heap sr ! (L - shift))) po [D]
             (length (heap sr) - shift) dold)"
  proof (cases m)
    case None
    then show ?thesis using mode by (simp add: rL root_def)
  next
    case (Some shift)
    note o = old [OF Some]
    have lt: "L - shift < L" using o by (auto simp: nodes_def)
    have c: "child (heap sr ! (L - shift)) = Some (L - shift + 1)"
      using below [OF lt] o by simp
    have lt1: "L - shift + 1 < L" using o by (auto simp: nodes_def)
    have sb: "sibling (heap sr ! (L - shift + 1)) = None"
      using below [OF lt1] o by simp
    have "builtChildren mo (heap sr) (child (heap sr ! (L - shift))) (L - shift) [D]
        (L - shift + 1) (L - shift + 2)"
      using c sb oldr [OF Some] by simp
    moreover have "length (heap sr) - shift = L - shift + 1" using lr o by auto
    ultimately have "\<exists>po dold. builtChildren mo (heap sr) (child (heap sr ! (L - shift))) po [D]
             (length (heap sr) - shift) dold" by metis
    then show ?thesis using Some o lr by (auto simp: rL root_def simp del: builtChildren.simps builtTree.simps)
  qed
  have dn: "m \<noteq> None \<longrightarrow> domNode (heap sr ! L) \<noteq> None" by (simp add: rL root_def)
  from perform_unit [OF wfs a pr ch f1 pth pl alt dn]
  obtain s1 where pu: "performUnitOfWork fuel L sr = Some (Inr (s1, Some (L + 1)))"
    and l1: "length (heap s1) = L + 2"
    and g1: "currentRoot s1 = currentRoot s" "wipRoot s1 = Some L" "deletions s1 = []"
      "m \<noteq> None \<longrightarrow> document s1 = document s"
    and fr1: "\<forall>b < L + 1. b \<noteq> L \<longrightarrow> heap s1 ! b = heap sr ! b"
    and a1: "parent (heap s1 ! L) = None" "sibling (heap s1 ! L) = None"
      "child (heap s1 ! L) = Some (L + 1)" "domNode (heap s1 ! L) = Some c"
    and k1: "fiberFor m (heap s1) (L + 1) L D"
      "child (heap s1 ! (L + 1)) = None"
      "sibling (heap s1 ! (L + 1)) = None"
      "m \<noteq> None \<longrightarrow> domNode (heap s1 ! (L + 1)) \<noteq> None"
    unfolding lr gr rL by (auto simp: root_def)
  define s1' where "s1' = s1\<lparr>nextUnitOfWork := Some (L + 1)\<rparr>"
  have h1: "heap s1' = heap s1" by (simp add: s1'_def)
  have step: "performUnits fuel (Suc (nodes D)) sr = performUnits fuel (nodes D) s1'"
    using nr pu by (simp add: s1'_def)
  have below1: "heap s1 ! b = heap s ! b" if "b < L" for b
    using that fr1 below by simp
  have kp: "parent (heap s1 ! (L + 1)) = Some L" using k1(1) by (simp add: fiberFor_def)
  have "\<exists>po. pendingTree m mo L fuel D s1' (L + 1) L [L + 1, L] po"
  proof (cases m)
    case None
    then show ?thesis
      unfolding pendingTree_def h1 using wf k1 kp a1 l1 fuel by (simp add: s1'_def)
  next
    case (Some shift)
    note o = old [OF Some]
    have bt: "builtTree mo (heap s1) (L - shift + 1) (L - shift) D (L - shift + 2)"
    proof (rule builtTree_frame)
      show "builtTree mo (heap s) (L - shift + 1) (L - shift) D (L - shift + 2)"
        using o by blast
      show "length (heap s) \<le> length (heap s1)" using l1 by (simp add: L_def)
      show "heap s1 ! (L - shift + 1) = heap s ! (L - shift + 1)"
        using o by (intro below1) (auto simp: nodes_def)
      fix b assume "L - shift + 2 \<le> b" "b < L - shift + 2 + descendants D"
      then show "heap s1 ! b = heap s ! b"
        using o by (intro below1) (auto simp: nodes_def)
    qed
    have sh: "shift \<le> L" "nodes D < shift" using o by blast+
    have e1: "L + 1 - shift = L - shift + 1" and e2: "L + 2 - shift = L - shift + 2"
      using sh by simp_all
    have "pendingTree m mo L fuel D s1' (L + 1) L [L + 1, L] (L - shift)"
      unfolding pendingTree_def h1 Some
      using wf k1 kp a1 l1 fuel bt sh Some e1 e2
      by (simp add: s1'_def nodes_def del: builtTree.simps) linarith
    then show ?thesis ..
  qed
  then obtain po where "pendingTree m mo L fuel D s1' (L + 1) L [L + 1, L] po" ..
  from perform_tree [OF this] obtain s2 where "passedTree m fuel D s1' (L + 1) L [L + 1, L] s2" ..
  then have u2: "performUnits fuel (nodes D) s1' = Some (Inr s2)"
    and n2: "nextUnitOfWork s2 = nextAbove (heap s1) [L + 1, L]"
    and l2: "length (heap s2) = L + 2 + descendants D"
    and b2: "builtTree m (heap s2) (L + 1) L D (L + 2)"
    and f2: "\<forall>b < L + 2. b \<noteq> L + 1 \<longrightarrow> heap s2 ! b = heap s1 ! b"
    and sb2: "sibling (heap s2 ! (L + 1)) = None"
    and g2: "currentRoot s2 = currentRoot s" "wipRoot s2 = Some L" "deletions s2 = []"
      "m \<noteq> None \<longrightarrow> document s2 = document s"
    unfolding passedTree_def h1 using l1 k1(3) g1 by (simp_all add: s1'_def)
  have "nextUnitOfWork s2 = None" using n2 k1(3) a1(2) by (simp add: nextAbove_def)
  moreover have "heap s2 ! L = heap s1 ! L" using f2 by simp
  moreover have "\<forall>b < L. heap s2 ! b = heap s ! b" using f2 below1 by simp
  ultimately show ?thesis
    using step u2 l2 b2 sb2 g2 a1 unfolding sr_def L_def [symmetric]
    by (intro exI [of _ s2]) (simp add: nodes_def)
qed


lemma performUnits_more:
  "performUnits fuel k s = Some (Inr s') \<Longrightarrow> nextUnitOfWork s' = None \<Longrightarrow> k \<le> units \<Longrightarrow>
   performUnits fuel units s = Some (Inr s')"
  using performUnits_add [of fuel k "units - k" s] by (simp add: performUnits_idle)

text \<open>
  C2.  When a description tree \<open>D\<close> is rendered and there is no committed tree
  (\<open>currentRoot\<close> is null), the pass runs to its end: no unit of work is left.  Besides the
  root fiber of the container it has made exactly one fiber for each node of \<open>D\<close>, every
  one of them is tagged \<open>PLACEMENT\<close>, no fiber is marked for deletion, and the fiber tree
  under the root has the shape of \<open>D\<close>, with the children of every node in their order
  from left to right.
\<close>

theorem render_first_pass_placements:
  assumes "wellFormed D" and "currentRoot s = None"
    and "nodes D + 2 < fuel" and "nodes D < units"
  shows "\<exists>s'. performUnits fuel units (render D container s) = Some (Inr s') \<and>
      nextUnitOfWork s' = None \<and> deletions s' = [] \<and>
      length (heap s') = length (heap s) + 1 + nodes D \<and>
      (\<forall>x. length (heap s) < x \<and> x < length (heap s') \<longrightarrow> effectTag (heap s' ! x) = Some PLACEMENT) \<and>
      child (heap s' ! length (heap s)) = Some (length (heap s) + 1) \<and>
      sibling (heap s' ! (length (heap s) + 1)) = None \<and>
      builtTree None (heap s') (length (heap s) + 1) (length (heap s)) D (length (heap s) + 2)"
proof -
  define L where "L = length (heap s)"
  have mode: "case None of None \<Rightarrow> currentRoot s = None
      | Some shift \<Rightarrow>
          nodes D < shift \<and> shift \<le> length (heap s) \<and>
          currentRoot s = Some (length (heap s) - shift) \<and>
          child (heap s ! (length (heap s) - shift)) = Some (length (heap s) - shift + 1) \<and>
          sibling (heap s ! (length (heap s) - shift + 1)) = None \<and>
          builtTree None (heap s) (length (heap s) - shift + 1) (length (heap s) - shift) D
            (length (heap s) - shift + 2)"
    using assms(2) by simp
  from render_pass [OF assms(1,3) mode, of container]
  obtain s' where u: "performUnits fuel (Suc (nodes D)) (render D container s) = Some (Inr s')"
    and n: "nextUnitOfWork s' = None"
    and l: "length (heap s') = L + 1 + nodes D"
    and b: "builtTree None (heap s') (L + 1) L D (L + 2)"
    and r: "child (heap s' ! L) = Some (L + 1)" "sibling (heap s' ! (L + 1)) = None"
      "deletions s' = []"
    unfolding L_def by blast
  have "performUnits fuel units (render D container s) = Some (Inr s')"
    by (rule performUnits_more [OF u n]) (use assms(4) in simp)
  moreover have "effectTag (heap s' ! x) = Some PLACEMENT" if "L < x" "x < length (heap s')" for x
  proof -
    have "x = L + 1 \<or> L + 2 \<le> x \<and> x < L + 2 + descendants D"
      using that l by (auto simp: nodes_def)
    from builtTree_tags [OF b this] show ?thesis by simp
  qed
  ultimately show ?thesis
    using n l b r unfolding L_def by (intro exI [of _ s']) simp
qed

theorem render_first_pass_placements_witness:
  "wellFormed sampleTree \<and> currentRoot initialState = None \<and> nodes sampleTree = 5 \<and>
   (\<exists>s'. performUnits 20 9 (render sampleTree 0 initialState) = Some (Inr s') \<and>
      nextUnitOfWork s' = None \<and> deletions s' = [] \<and> length (heap s') = 6 \<and>
      (\<forall>x. 0 < x \<and> x < length (heap s') \<longrightarrow> effectTag (heap s' ! x) = Some PLACEMENT) \<and>
      child (heap s' ! 0) = Some 1 \<and> sibling (heap s' ! 1) = None \<and>
      builtTree None (heap s') 1 0 sampleTree 2)"
proof -
  have h: "wellFormed sampleTree" "currentRoot initialState = None"
    "nodes sampleTree + 2 < 20" "nodes sampleTree < 9"
    by code_simp+
  have n: "nodes sampleTree = 5" by code_simp
  have l: "length (heap initialState) = 0" by code_simp
  from render_first_pass_placements [OF h, of 0] show ?thesis
    using h n l by (simp add: numeral_2_eq_2)
qed

section \<open>Rendering the same tree again\<close>

lemma updateDomProperties_same: "updateDomProperties d dom0 kvs kvs = d"
proof -
  have "filter (\<lambda>x. P x \<and> isGone kvs kvs x) (map fst kvs) = []" for P
    by (auto simp: filter_empty_conv isGone_def)
  moreover have "filter (\<lambda>x. P x \<and> (isGone kvs kvs x \<or> isNew kvs kvs x)) (map fst kvs) = []" for P
    by (auto simp: filter_empty_conv isGone_def isNew_def)
  moreover have "filter (\<lambda>x. P x \<and> isNew kvs kvs x) xs = []" for P xs
    by (auto simp: filter_empty_conv isNew_def)
  ultimately show ?thesis by (simp add: updateDomProperties_def)
qed

lemma commitEffect_same:
  assumes "effectTag (heap s ! x) = Some UPDATE" "domNode (heap s ! x) \<noteq> None"
    and "alternate (heap s ! x) = Some y" "props (heap s ! y) = props (heap s ! x)"
    and "props (heap s ! x) \<noteq> None"
  shows "commitEffect fuel x domParent s = Some (Inr s)"
  using assms by (auto simp: commitEffect_def updateDomProps_def updateDomProperties_same)

lemma builtTree_props: "builtTree m h x p e lo \<Longrightarrow> props (h ! x) = elementProps e \<and> elementProps e \<noteq> None"
  by (cases e) (auto simp: fiberFor_def)

lemma commitWork_same_tree:
  "builtTree m h x p e lo \<Longrightarrow>
   (\<forall>depth. m = Some shift \<longrightarrow> heap s = h \<longrightarrow> shift \<le> lo \<longrightarrow>
      (\<exists>po. builtTree mo h (x - shift) po e (lo - shift)) \<longrightarrow> 0 < fuel \<longrightarrow> descendants e < depth \<longrightarrow>
      commitWork fuel depth (child (h ! x)) s = Some (Inr s))"
  and commitWork_same_children:
  "builtChildren m h c p es r d \<Longrightarrow>
   (\<forall>depth. m = Some shift \<longrightarrow> heap s = h \<longrightarrow> shift \<le> r \<longrightarrow> shift \<le> d \<longrightarrow>
      (\<exists>c' po. builtChildren mo h c' po es (r - shift) (d - shift)) \<longrightarrow>
      domNode (h ! p) \<noteq> None \<longrightarrow> 0 < fuel \<longrightarrow> sum_list (map nodes es) < depth \<longrightarrow>
      commitWork fuel depth c s = Some (Inr s))"
proof (induction m h x p e lo and m h c p es r d rule: builtTree_builtChildren.induct)
  case (1 m h x p t kvs cs lo)
  let ?e = "Elem t kvs cs"
  from 1(2) have bc: "builtChildren m h (child (h ! x)) x cs lo (lo + length cs)"
    and dx: "domNode (h ! x) \<noteq> None" by simp_all
  note ih = 1(1) [OF bc, rule_format]
  show ?case
  proof (intro allI impI)
    fix depth
    assume m: "m = Some shift" and hs: "heap s = h" and sh: "shift \<le> lo"
      and old: "\<exists>po. builtTree mo h (x - shift) po ?e (lo - shift)"
      and fuel: "0 < fuel" and dp: "descendants ?e < depth"
    from old have "builtChildren mo h (child (h ! (x - shift))) (x - shift) cs (lo - shift)
        (lo - shift + length cs)" by auto
    moreover have "lo - shift + length cs = lo + length cs - shift" using sh by simp
    ultimately have o: "\<exists>c' po. builtChildren mo h c' po cs (lo - shift) (lo + length cs - shift)"
      by metis
    have "sum_list (map nodes cs) < depth"
      using dp by (simp add: nodes_children descendants_children)
    then show "commitWork fuel depth (child (h ! x)) s = Some (Inr s)"
      using m hs sh o dx fuel by (intro ih) simp_all
  qed
next
  case (2 m h x p v lo)
  then show ?case by simp
next
  case (3 m h x p xs lo)
  then show ?case by simp
next
  case (4 m h c p r d)
  show ?case
  proof (intro allI impI)
    fix depth :: nat assume "sum_list (map nodes []) < depth"
    then obtain k where "depth = Suc k" by (cases depth) auto
    then show "commitWork fuel depth c s = Some (Inr s)" using 4 by simp
  qed
next
  case (5 m h c p e es r d)
  from 5(3) have c: "c = Some r" and t: "builtTree m h r p e d"
    and rest: "builtChildren m h (sibling (h ! r)) p es (Suc r) (d + descendants e)" by simp_all
  note ihT = 5(1) [OF t, rule_format]
  note ihC = 5(2) [OF rest, rule_format]
  show ?case
  proof (intro allI impI)
    fix depth
    assume m: "m = Some shift" and hs: "heap s = h" and sh: "shift \<le> r" "shift \<le> d"
      and old: "\<exists>c' po. builtChildren mo h c' po (e # es) (r - shift) (d - shift)"
      and dp: "domNode (h ! p) \<noteq> None"
      and fuel: "0 < fuel" and de: "sum_list (map nodes (e # es)) < depth"
    from old obtain po where ot: "builtTree mo h (r - shift) po e (d - shift)"
      and orest: "builtChildren mo h (sibling (h ! (r - shift))) po es (Suc (r - shift))
          (d - shift + descendants e)" by auto
    obtain k where k: "depth = Suc k" using de by (cases depth) auto
    obtain f where f: "fuel = Suc f" using fuel by (cases fuel) auto
    obtain dp0 where dp0: "domNode (h ! p) = Some dp0" using dp by auto
    have ff: "fiberFor m h r p e" "domNode (h ! r) \<noteq> None" using builtTree_fiberFor [OF t] by simp_all
    have par: "parent (h ! r) = Some p" and tag: "effectTag (h ! r) = Some UPDATE"
      and al: "alternate (h ! r) = Some (r - shift)"
      using ff(1) m by (simp_all add: fiberFor_def)
    have pe: "props (h ! (r - shift)) = props (h ! r)" "props (h ! r) \<noteq> None"
      using builtTree_props [OF t] builtTree_props [OF ot] by simp_all
    have eff: "commitEffect fuel r dp0 s = Some (Inr s)"
      by (rule commitEffect_same [where y = "r - shift"]) (use tag ff(2) al pe hs in simp_all)
    have "descendants e < k" using de k by (simp add: nodes_def)
    then have c1: "commitWork fuel k (child (h ! r)) s = Some (Inr s)"
      using m hs sh ot fuel by (intro ihT) auto
    have "Suc (r - shift) = Suc r - shift" "d - shift + descendants e = d + descendants e - shift"
      using sh by simp_all
    then have o2: "\<exists>c' po. builtChildren mo h c' po es (Suc r - shift) (d + descendants e - shift)"
      using orest by metis
    have "sum_list (map nodes es) < k" using de k by (simp add: nodes_def)
    then have c2: "commitWork fuel k (sibling (h ! r)) s = Some (Inr s)"
      using m hs sh o2 dp fuel by (intro ihC) simp_all
    show "commitWork fuel depth c s = Some (Inr s)"
      using c k f par dp0 eff c1 c2 hs by simp
  qed
qed




end
